theory Spec2Isabelle
  imports Complex_Main "HOL-Library.Log_Nat" "HOL-Library.Sublist"
begin

section \<open>Errors and results of \<open>parse_iso8601\<close>\<close>

text \<open>
  The source raises \<open>ValueError\<close> with a different message at every check. The message is
  what tells the error kinds apart, so each message is a constructor:
  \<^item> \<open>NoMatch\<close>: "The string is not in the format as specified by ISO-8601 ...";
  \<^item> \<open>InconsistentFormat\<close>: "Date and time must be both truncated or untruncated.";
  \<^item> \<open>FieldOutOfRange f\<close>: "The \<open>f\<close> value is out of range.";
  \<^item> \<open>DayOutOfRange\<close>: "The day value is out of range for the month.".
  The remaining constructors are the exceptions that the built-ins called by the source
  can raise: \<open>int\<close> on a text that is not a number (\<open>IntError\<close>) or on \<open>None\<close>
  (\<open>TypeError\<close>), a dictionary lookup of a missing key (\<open>KeyError\<close>), and the
  constructors \<open>datetime.timezone\<close> and \<open>datetime.datetime\<close> on a value they refuse
  (\<open>ConstructorError\<close>).
\<close>

datatype field = Year | Month | Hour | Minute | Second | TzHour | TzMinute

datatype error =
    NoMatch
  | InconsistentFormat
  | FieldOutOfRange field
  | DayOutOfRange
  | IntError
  | TypeError
  | KeyError
  | ConstructorError

definition and_then :: "error + 'a \<Rightarrow> ('a \<Rightarrow> error + 'b) \<Rightarrow> error + 'b" where
  "and_then r f = (case r of Inl e \<Rightarrow> Inl e | Inr v \<Rightarrow> f v)"

section \<open>The grammar matcher \<open>datetime_regex\<close>\<close>

text \<open>
  The named groups of the pattern. \<open>year\<close>, \<open>hyphen\<close>, \<open>month\<close> and \<open>day\<close> take part
  in every match; the other groups are \<open>None\<close> when their part of the pattern did not
  take part in the match.

  Input texts are HOL strings, that is code points below 256. Among those the class
  \<open>\d\<close> holds the ten ASCII digits only.
\<close>

record regex_match =
  g_year :: string
  g_hyphen :: string
  g_month :: string
  g_day :: string
  g_hour :: "string option"
  g_colon :: "string option"
  g_minute :: "string option"
  g_second :: "string option"
  g_subsecond :: "string option"
  g_timezone :: "string option"
  g_sign :: "string option"
  g_tz_hour :: "string option"
  g_tz_minute :: "string option"

definition no_groups :: regex_match where
  "no_groups = \<lparr> g_year = [], g_hyphen = [], g_month = [], g_day = [],
     g_hour = None, g_colon = None, g_minute = None, g_second = None, g_subsecond = None,
     g_timezone = None, g_sign = None, g_tz_hour = None, g_tz_minute = None \<rparr>"

definition is_digit :: "char \<Rightarrow> bool" where
  "is_digit c = (48 \<le> (of_char c :: nat) \<and> (of_char c :: nat) \<le> 57)"

text \<open>\<open>\d{n}\<close>: exactly \<open>n\<close> digits; the captured text and the rest of the input.\<close>

definition digits :: "nat \<Rightarrow> string \<Rightarrow> (string \<times> string) option" where
  "digits n s =
     (if n \<le> length s \<and> list_all is_digit (take n s) then Some (take n s, drop n s) else None)"

text \<open>A literal character of the pattern; the rest of the input.\<close>

definition lit :: "char \<Rightarrow> string \<Rightarrow> string option" where
  "lit c s = (case s of [] \<Rightarrow> None | x # r \<Rightarrow> if x = c then Some r else None)"

text \<open>A back-reference \<open>(?P=name)\<close>: the captured text again.\<close>

definition backref :: "string \<Rightarrow> string \<Rightarrow> string option" where
  "backref g s = (if take (length g) s = g then Some (drop (length g) s) else None)"

text \<open>
  \<open>$\<close> without the MULTILINE flag: the end of the text, or the position just before a
  newline that is the last character of the text.
\<close>

definition at_end :: "string \<Rightarrow> bool" where
  "at_end s = (s = [] \<or> s = [CHR 0x0A])"

text \<open>
  Backtracking: the engine tries the first alternative together with everything that
  follows it in the pattern, and the next alternative only when that fails. Every matcher
  below therefore matches its own part and the whole remainder of the pattern up to \<open>$\<close>.
\<close>

definition orelse :: "'a option \<Rightarrow> 'a option \<Rightarrow> 'a option" where
  "orelse a b = (case a of Some x \<Rightarrow> Some x | None \<Rightarrow> b)"

text \<open>\<open>(?::?(?P<tz_minute>\d{2}))?$\<close>\<close>

definition match_tz_minute :: "string \<Rightarrow> regex_match option" where
  "match_tz_minute s =
     (let minute_then_end = (\<lambda>r.
            case digits 2 r of
              None \<Rightarrow> None
            | Some (m, r') \<Rightarrow> if at_end r' then Some (no_groups\<lparr>g_tz_minute := Some m\<rparr>) else None)
      in orelse (case lit CHR '':'' s of None \<Rightarrow> None | Some r \<Rightarrow> minute_then_end r)
        (orelse (minute_then_end s)
                (if at_end s then Some no_groups else None)))"

text \<open>\<open>(?P<timezone>Z|(?P<sign>\+|-)(?P<tz_hour>\d{2})(?::?(?P<tz_minute>\d{2}))?)?$\<close>.
  The group \<open>timezone\<close> spans everything from its start to the position of \<open>$\<close>.\<close>

definition tz_span :: "string \<Rightarrow> string" where
  "tz_span s = (if s \<noteq> [] \<and> last s = CHR 0x0A then butlast s else s)"

definition match_timezone :: "string \<Rightarrow> regex_match option" where
  "match_timezone s =
     orelse (case lit CHR ''Z'' s of
               None \<Rightarrow> None
             | Some r \<Rightarrow> if at_end r then Some (no_groups\<lparr>g_timezone := Some ''Z''\<rparr>) else None)
    (orelse (case orelse (lit CHR ''+'' s) (lit CHR ''-'' s) of
               None \<Rightarrow> None
             | Some r \<Rightarrow>
                (case digits 2 r of
                   None \<Rightarrow> None
                 | Some (h, r') \<Rightarrow>
                     map_option (\<lambda>m. m\<lparr>g_timezone := Some (tz_span s), g_sign := Some (take 1 s),
                                        g_tz_hour := Some h\<rparr>)
                       (match_tz_minute r')))
            (if at_end s then Some no_groups else None))"

text \<open>\<open>\d{1,6}\<close> is greedy: six digits first, then five, down to one.\<close>

fun match_subsecond_digits :: "nat \<Rightarrow> string \<Rightarrow> regex_match option" where
  "match_subsecond_digits 0 s = None"
| "match_subsecond_digits (Suc n) s =
     orelse (case digits (Suc n) s of
               None \<Rightarrow> None
             | Some (d, r) \<Rightarrow> map_option (\<lambda>m. m\<lparr>g_subsecond := Some d\<rparr>) (match_timezone r))
            (match_subsecond_digits n s)"

text \<open>\<open>(?:\.(?P<subsecond>\d{1,6}))?\<close> and the timezone\<close>

definition match_subsecond :: "string \<Rightarrow> regex_match option" where
  "match_subsecond s =
     orelse (case lit CHR ''.'' s of None \<Rightarrow> None | Some r \<Rightarrow> match_subsecond_digits 6 r)
            (match_timezone s)"

text \<open>\<open>(?:(?P=colon)(?P<second>\d{2})(?:\.(?P<subsecond>\d{1,6}))?)?\<close> and the timezone\<close>

definition match_second :: "string \<Rightarrow> string \<Rightarrow> regex_match option" where
  "match_second colon s =
     orelse (case backref colon s of
               None \<Rightarrow> None
             | Some r \<Rightarrow>
                (case digits 2 r of
                   None \<Rightarrow> None
                 | Some (sec, r') \<Rightarrow>
                     map_option (\<lambda>m. m\<lparr>g_second := Some sec\<rparr>) (match_subsecond r')))
            (match_timezone s)"

text \<open>\<open>(?:(?P<colon>:?)(?P<minute>\d{2})(...)?)?\<close> and the timezone. The greedy \<open>:?\<close>
  takes the colon first and the empty text second.\<close>

definition match_minute :: "string \<Rightarrow> regex_match option" where
  "match_minute s =
     (let minute_after = (\<lambda>colon r.
            case digits 2 r of
              None \<Rightarrow> None
            | Some (mi, r') \<Rightarrow>
                map_option (\<lambda>m. m\<lparr>g_colon := Some colon, g_minute := Some mi\<rparr>)
                  (match_second colon r'))
      in orelse (case lit CHR '':'' s of None \<Rightarrow> None | Some r \<Rightarrow> minute_after '':'' r)
        (orelse (minute_after '''' s)
                (match_timezone s)))"

text \<open>\<open>(?:T(?P<hour>\d{2})(...)?)?\<close> and the timezone\<close>

definition match_time :: "string \<Rightarrow> regex_match option" where
  "match_time s =
     orelse (case lit CHR ''T'' s of
               None \<Rightarrow> None
             | Some r \<Rightarrow>
                (case digits 2 r of
                   None \<Rightarrow> None
                 | Some (h, r') \<Rightarrow> map_option (\<lambda>m. m\<lparr>g_hour := Some h\<rparr>) (match_minute r')))
            (match_timezone s)"

text \<open>\<open>(?P<month>\d{2})(?P=hyphen)(?P<day>\d{2})\<close> and the rest of the pattern, for the
  text that the group \<open>hyphen\<close> has captured.\<close>

definition match_month_day :: "string \<Rightarrow> string \<Rightarrow> regex_match option" where
  "match_month_day hyphen s =
     (case digits 2 s of
        None \<Rightarrow> None
      | Some (mo, r1) \<Rightarrow>
         (case backref hyphen r1 of
            None \<Rightarrow> None
          | Some r2 \<Rightarrow>
             (case digits 2 r2 of
                None \<Rightarrow> None
              | Some (d, r3) \<Rightarrow>
                  map_option (\<lambda>m. m\<lparr>g_hyphen := hyphen, g_month := mo, g_day := d\<rparr>)
                    (match_time r3))))"

text \<open>The whole pattern, as \<open>re.match\<close> applies it: anchored at the start of the text.
  The greedy \<open>-?\<close> takes the hyphen first and the empty text second.\<close>

definition datetime_regex :: "string \<Rightarrow> regex_match option" where
  "datetime_regex s =
     (case digits 4 s of
        None \<Rightarrow> None
      | Some (y, r) \<Rightarrow>
          map_option (\<lambda>m. m\<lparr>g_year := y\<rparr>)
            (orelse (case lit CHR ''-'' r of None \<Rightarrow> None | Some r' \<Rightarrow> match_month_day ''-'' r')
                    (match_month_day '''' r)))"

section \<open>The built-ins that \<open>parse_iso8601\<close> calls\<close>

subsection \<open>\<open>int\<close> on a captured group\<close>

definition digit_val :: "char \<Rightarrow> int" where
  "digit_val c = int (of_char c) - 48"

definition decimal_value :: "string \<Rightarrow> int" where
  "decimal_value s = foldl (\<lambda>acc c. 10 * acc + digit_val c) 0 s"

text \<open>
  \<open>int(s)\<close> for a text \<open>s\<close>. Only texts of decimal digits are modelled as numbers, which
  is all that the groups of \<open>datetime_regex\<close> capture (lemma \<open>datetime_regex_shape\<close>);
  every other text is reported as the \<open>ValueError\<close> of \<open>int\<close>.
\<close>

definition py_int :: "string \<Rightarrow> error + int" where
  "py_int s = (if s \<noteq> [] \<and> list_all is_digit s then Inr (decimal_value s) else Inl IntError)"

text \<open>\<open>int(match.group(g))\<close> for a group that may be \<open>None\<close>\<close>

definition group_int :: "string option \<Rightarrow> error + int" where
  "group_int g = (case g of None \<Rightarrow> Inl TypeError | Some s \<Rightarrow> py_int s)"

text \<open>\<open>int(match.group(g) or 0)\<close>: \<open>None\<close> and the empty text are falsy.\<close>

definition group_int_or_0 :: "string option \<Rightarrow> error + int" where
  "group_int_or_0 g = (case g of None \<Rightarrow> Inr 0 | Some s \<Rightarrow> if s = [] then Inr 0 else py_int s)"

subsection \<open>Double-precision arithmetic\<close>

text \<open>
  \<open>int(float(f"0.{subsec_match}") * 1000000)\<close> is binary floating-point arithmetic.
  A double is modelled by a pair \<open>(m, e)\<close> of integers standing for the number
  \<open>m * 2 ^ e\<close>. Every operation computes its exact rational result and rounds it to the
  nearest number with a 53-bit significand, ties to even, as IEEE 754 does. Exponent
  overflow and subnormal numbers are not modelled: the numbers that occur here lie
  between \<open>10\<^sup>-\<^sup>6\<close> and \<open>10\<^sup>6\<close>, or are zero.
\<close>

type_synonym double = "int \<times> int"

text \<open>The ratio \<open>a / b\<close> divided by \<open>2 ^ s\<close>, as a ratio of integers\<close>

definition scale_ratio :: "int \<Rightarrow> int \<Rightarrow> int \<Rightarrow> int \<times> int" where
  "scale_ratio a b s = (if 0 \<le> s then (a, b * 2 ^ nat s) else (a * 2 ^ nat (- s), b))"

text \<open>The integer nearest to \<open>n / d\<close>, the even one of two that are equally near\<close>

definition round_half_even :: "int \<Rightarrow> int \<Rightarrow> int" where
  "round_half_even n d =
     (let q = n div d; r = n mod d
      in if 2 * r < d then q else if d < 2 * r then q + 1 else if even q then q else q + 1)"

text \<open>The double nearest to \<open>a / b\<close>, for \<open>a \<ge> 0\<close> and \<open>b > 0\<close>: with \<open>e\<close> the exponent
  such that \<open>2 ^ e \<le> a / b < 2 ^ (e + 1)\<close>, the ratio is rounded to a multiple of
  \<open>2 ^ (e - 52)\<close>.\<close>

definition round_ratio :: "int \<Rightarrow> int \<Rightarrow> double" where
  "round_ratio a b =
     (if a = 0 then (0, 0)
      else let e0 = bitlen a - bitlen b - 1;
               e = (case scale_ratio a b (e0 + 1) of (n0, d0) \<Rightarrow> if d0 \<le> n0 then e0 + 1 else e0)
           in case scale_ratio a b (e - 52) of (n, d) \<Rightarrow> (round_half_even n d, e - 52))"

text \<open>\<open>float("0." + ds)\<close> for a text \<open>ds\<close> of digits: the double nearest to the decimal
  fraction\<close>

definition float_of_fraction :: "string \<Rightarrow> double" where
  "float_of_fraction ds = round_ratio (decimal_value ds) (10 ^ length ds)"

text \<open>The conversion of the integer operand of \<open>float * int\<close>, for \<open>n \<ge> 0\<close>\<close>

definition float_of_int :: "int \<Rightarrow> double" where
  "float_of_int n = round_ratio n 1"

definition float_mul :: "double \<Rightarrow> double \<Rightarrow> double" where
  "float_mul x y =
     (case x of (m1, e1) \<Rightarrow> case y of (m2, e2) \<Rightarrow>
        if 0 \<le> e1 + e2 then round_ratio (m1 * m2 * 2 ^ nat (e1 + e2)) 1
        else round_ratio (m1 * m2) (2 ^ nat (- (e1 + e2))))"

text \<open>\<open>int(x)\<close> for a double \<open>x \<ge> 0\<close>: the fraction is cut off.\<close>

definition int_of_float :: "double \<Rightarrow> int" where
  "int_of_float x = (case x of (m, e) \<Rightarrow> if 0 \<le> e then m * 2 ^ nat e else m div 2 ^ nat (- e))"

subsection \<open>\<open>datetime.timedelta\<close>, \<open>datetime.timezone\<close> and \<open>datetime.datetime\<close>\<close>

text \<open>
  A \<open>timedelta\<close> built from whole hours and minutes is the number of its minutes.
  \<open>timezone(offset)\<close> raises \<open>ValueError\<close> unless the offset lies strictly between
  minus and plus 24 hours; \<open>timezone.utc\<close> is the timezone of offset zero.
\<close>

definition timedelta :: "int \<Rightarrow> int \<Rightarrow> int" where
  "timedelta hours minutes = 60 * hours + minutes"

definition timezone_ctor :: "int \<Rightarrow> error + int" where
  "timezone_ctor offset =
     (if - 1440 < offset \<and> offset < 1440 then Inr offset else Inl ConstructorError)"

definition timezone_utc :: int where
  "timezone_utc = 0"

text \<open>The timestamp. \<open>dt_tzinfo\<close> is \<open>None\<close> for a naive timestamp and the UTC offset in
  minutes for an aware one.\<close>

record datetime =
  dt_year :: int
  dt_month :: int
  dt_day :: int
  dt_hour :: int
  dt_minute :: int
  dt_second :: int
  dt_microsecond :: int
  dt_tzinfo :: "int option"

text \<open>The checks of the constructor \<open>datetime.datetime\<close>, with the leap-year test and
  the month lengths of the \<open>datetime\<close> module itself\<close>

definition lib_is_leap :: "int \<Rightarrow> bool" where
  "lib_is_leap y = (y mod 4 = 0 \<and> (y mod 100 \<noteq> 0 \<or> y mod 400 = 0))"

definition lib_days_in_month :: "int \<Rightarrow> int \<Rightarrow> int" where
  "lib_days_in_month y m =
     (if m = 2 \<and> lib_is_leap y then 29
      else [31, 28, 31, 30, 31, 30, 31, 31, 30, 31, 30, 31] ! nat (m - 1))"

definition datetime_ctor ::
  "int \<Rightarrow> int \<Rightarrow> int \<Rightarrow> int \<Rightarrow> int \<Rightarrow> int \<Rightarrow> int \<Rightarrow> int option \<Rightarrow> error + datetime" where
  "datetime_ctor year month day hour minute second microsecond tzinfo =
     (if \<not> (1 \<le> year \<and> year \<le> 9999) then Inl ConstructorError
      else if \<not> (1 \<le> month \<and> month \<le> 12) then Inl ConstructorError
      else if \<not> (1 \<le> day \<and> day \<le> lib_days_in_month year month) then Inl ConstructorError
      else if \<not> (0 \<le> hour \<and> hour \<le> 23) then Inl ConstructorError
      else if \<not> (0 \<le> minute \<and> minute \<le> 59) then Inl ConstructorError
      else if \<not> (0 \<le> second \<and> second \<le> 59) then Inl ConstructorError
      else if \<not> (0 \<le> microsecond \<and> microsecond \<le> 999999) then Inl ConstructorError
      else Inr \<lparr> dt_year = year, dt_month = month, dt_day = day, dt_hour = hour,
                 dt_minute = minute, dt_second = second, dt_microsecond = microsecond,
                 dt_tzinfo = tzinfo \<rparr>)"

section \<open>\<open>parse_iso8601\<close>\<close>

definition days_in_february :: "int \<Rightarrow> int" where
  "days_in_february year =
     (let d = 28;
          d = (if year mod 4 = 0 then 29 else d);
          d = (if year mod 100 = 0 \<and> year mod 400 \<noteq> 0 then 28 else d)
      in d)"

definition days_in_month :: "int \<Rightarrow> (int \<rightharpoonup> int)" where
  "days_in_month feb =
     [1 \<mapsto> 31, 2 \<mapsto> feb, 3 \<mapsto> 31, 4 \<mapsto> 30, 5 \<mapsto> 31, 6 \<mapsto> 30,
      7 \<mapsto> 31, 8 \<mapsto> 31, 9 \<mapsto> 30, 10 \<mapsto> 31, 11 \<mapsto> 30, 12 \<mapsto> 31]"

text \<open>\<open>d[k]\<close> raises \<open>KeyError\<close> for a missing key.\<close>

definition lookup :: "(int \<rightharpoonup> int) \<Rightarrow> int \<Rightarrow> error + int" where
  "lookup d k = (case d k of None \<Rightarrow> Inl KeyError | Some v \<Rightarrow> Inr v)"

text \<open>The truncation check: \<open>time_seperator is not None and
  bool(date_seperator) != bool(time_seperator)\<close>\<close>

definition inconsistent :: "string \<Rightarrow> string option \<Rightarrow> bool" where
  "inconsistent date_seperator time_seperator =
     (case time_seperator of
        None \<Rightarrow> False
      | Some t \<Rightarrow> (date_seperator \<noteq> []) \<noteq> (t \<noteq> []))"

text \<open>The computation of \<open>microsecond\<close>\<close>

definition microsecond_of :: "string option \<Rightarrow> int" where
  "microsecond_of subsec =
     (case subsec of
        Some subsec_match \<Rightarrow>
          int_of_float (float_mul (float_of_fraction subsec_match) (float_of_int 1000000))
      | None \<Rightarrow> 0)"

text \<open>The computation of \<open>tzinfo\<close>, with its two range checks\<close>

definition tzinfo_of :: "regex_match \<Rightarrow> error + int option" where
  "tzinfo_of match =
     (case g_timezone match of
        None \<Rightarrow> Inr None
      | Some timezone \<Rightarrow>
          if timezone = ''Z'' then Inr (Some timezone_utc)
          else
            and_then (group_int (g_tz_hour match)) (\<lambda>tz_hour.
            if \<not> (0 \<le> tz_hour \<and> tz_hour \<le> 23) then Inl (FieldOutOfRange TzHour) else
            and_then (group_int_or_0 (g_tz_minute match)) (\<lambda>tz_minute.
            if \<not> (0 \<le> tz_minute \<and> tz_minute \<le> 59) then Inl (FieldOutOfRange TzMinute) else
            let sign = (if g_sign match = Some ''+'' then 1 else - 1)
            in and_then (timezone_ctor (timedelta (tz_hour * sign) (tz_minute * sign)))
                 (\<lambda>tz. Inr (Some tz)))))"

text \<open>
  The checks in the order of the source. The chained comparison
  \<open>1 <= day <= days_in_month[month]\<close> evaluates its second half, and with it the lookup,
  only when the first half holds.
\<close>

definition parse_iso8601 :: "string \<Rightarrow> error + datetime" where
  "parse_iso8601 timestamp =
     (case datetime_regex timestamp of
        None \<Rightarrow> Inl NoMatch
      | Some match \<Rightarrow>
          if inconsistent (g_hyphen match) (g_colon match) then Inl InconsistentFormat else
          and_then (py_int (g_year match)) (\<lambda>year.
          if year < 1 then Inl (FieldOutOfRange Year) else
          and_then (py_int (g_month match)) (\<lambda>month.
          if \<not> (1 \<le> month \<and> month \<le> 12) then Inl (FieldOutOfRange Month) else
          and_then (group_int_or_0 (g_hour match)) (\<lambda>hour.
          if \<not> (0 \<le> hour \<and> hour \<le> 23) then Inl (FieldOutOfRange Hour) else
          and_then (group_int_or_0 (g_minute match)) (\<lambda>minute.
          if \<not> (0 \<le> minute \<and> minute \<le> 59) then Inl (FieldOutOfRange Minute) else
          and_then (group_int_or_0 (g_second match)) (\<lambda>second.
          if \<not> (0 \<le> second \<and> second \<le> 59) then Inl (FieldOutOfRange Second) else
          let microsecond = microsecond_of (g_subsecond match) in
          and_then (tzinfo_of match) (\<lambda>tzinfo.
          let days_in_month = days_in_month (days_in_february year) in
          and_then (py_int (g_day match)) (\<lambda>day.
          if \<not> (1 \<le> day) then Inl DayOutOfRange else
          and_then (lookup days_in_month month) (\<lambda>max_day.
          if \<not> (day \<le> max_day) then Inl DayOutOfRange else
          datetime_ctor year month day hour minute second microsecond tzinfo)))))))))"

section \<open>The shape of the captured groups\<close>

text \<open>Predicates that say what a group of \<open>datetime_regex\<close> can hold.\<close>

definition digit_text :: "nat \<Rightarrow> string \<Rightarrow> bool" where
  "digit_text n s = (length s = n \<and> list_all is_digit s)"

definition opt_digit_text :: "nat \<Rightarrow> string option \<Rightarrow> bool" where
  "opt_digit_text n g = (case g of None \<Rightarrow> True | Some s \<Rightarrow> digit_text n s)"

definition subsecond_shape :: "string option \<Rightarrow> bool" where
  "subsecond_shape g =
     (case g of None \<Rightarrow> True | Some s \<Rightarrow> 1 \<le> length s \<and> length s \<le> 6 \<and> list_all is_digit s)"

definition tz_shape :: "regex_match \<Rightarrow> bool" where
  "tz_shape m =
     ((g_timezone m = None \<and> g_sign m = None \<and> g_tz_hour m = None \<and> g_tz_minute m = None)
    \<or> (g_timezone m = Some ''Z'' \<and> g_sign m = None \<and> g_tz_hour m = None \<and> g_tz_minute m = None)
    \<or> ((\<exists>tz. g_timezone m = Some tz \<and> tz \<noteq> ''Z'')
        \<and> (g_sign m = Some ''+'' \<or> g_sign m = Some ''-'')
        \<and> (\<exists>h. g_tz_hour m = Some h \<and> digit_text 2 h)
        \<and> opt_digit_text 2 (g_tz_minute m)))"

definition time_shape :: "regex_match \<Rightarrow> bool" where
  "time_shape m =
     (opt_digit_text 2 (g_hour m) \<and> opt_digit_text 2 (g_minute m)
    \<and> opt_digit_text 2 (g_second m) \<and> subsecond_shape (g_subsecond m)
    \<and> (g_colon m = None \<or> g_colon m = Some [] \<or> g_colon m = Some '':'')
    \<and> (g_colon m = None \<longleftrightarrow> g_minute m = None))"

text \<open>The real number that a double stands for\<close>

definition dval :: "double \<Rightarrow> real" where
  "dval x = (case x of (m, e) \<Rightarrow> real_of_int m * 2 powr (real_of_int e))"

text \<open>The number that an optional group stands for, zero when it is absent\<close>

definition opt_value :: "string option \<Rightarrow> int" where
  "opt_value g = (case g of None \<Rightarrow> 0 | Some s \<Rightarrow> decimal_value s)"

section \<open>The specification's notions\<close>

text \<open>
  The definitions of this section follow the words of the specification, not the code;
  the theorems compare the code with them.

  The proleptic Gregorian leap-year rule: a year is a leap year if it is divisible by 4
  and is not a century year that 400 does not divide.
\<close>

definition gregorian_leap :: "int \<Rightarrow> bool" where
  "gregorian_leap y = (y mod 4 = 0 \<and> \<not> (y mod 100 = 0 \<and> y mod 400 \<noteq> 0))"

text \<open>The maximum valid day of a month of a year\<close>

definition calendar_days :: "int \<Rightarrow> int \<Rightarrow> int" where
  "calendar_days y mo =
     (if mo = 2 then (if gregorian_leap y then 29 else 28)
      else if mo = 4 \<or> mo = 6 \<or> mo = 9 \<or> mo = 11 then 30
      else 31)"

text \<open>The timezone is present in its signed form, not \<open>Z\<close>.\<close>

definition signed_timezone :: "regex_match \<Rightarrow> bool" where
  "signed_timezone m = (g_timezone m \<noteq> None \<and> g_timezone m \<noteq> Some ''Z'')"

text \<open>The UTC offset of the result: none without a timezone, zero for \<open>Z\<close>, and for a
  signed timezone the sign applied to hours and minutes together, in minutes.\<close>

definition offset_minutes :: "regex_match \<Rightarrow> int option" where
  "offset_minutes m =
     (if g_timezone m = None then None
      else if g_timezone m = Some ''Z'' then Some 0
      else Some ((if g_sign m = Some ''+'' then 1 else - 1)
                 * (60 * opt_value (g_tz_hour m) + opt_value (g_tz_minute m))))"

text \<open>The timestamp that the captured groups denote\<close>

definition timestamp_of :: "regex_match \<Rightarrow> datetime" where
  "timestamp_of m =
     \<lparr> dt_year = decimal_value (g_year m), dt_month = decimal_value (g_month m),
       dt_day = decimal_value (g_day m), dt_hour = opt_value (g_hour m),
       dt_minute = opt_value (g_minute m), dt_second = opt_value (g_second m),
       dt_microsecond = microsecond_of (g_subsecond m), dt_tzinfo = offset_minutes m \<rparr>"

text \<open>The checks of the validator, each taken alone, in the order of the specification:
  truncation consistency, year, month, hour, minute, second, timezone hour, timezone
  minute, day of month.\<close>

definition violation :: "bool \<Rightarrow> error \<Rightarrow> error list" where
  "violation c e = (if c then [e] else [])"

definition field_violations :: "regex_match \<Rightarrow> error list" where
  "field_violations m =
     violation (decimal_value (g_year m) < 1) (FieldOutOfRange Year)
   @ violation (\<not> (1 \<le> decimal_value (g_month m) \<and> decimal_value (g_month m) \<le> 12))
       (FieldOutOfRange Month)
   @ violation (\<not> (0 \<le> opt_value (g_hour m) \<and> opt_value (g_hour m) \<le> 23))
       (FieldOutOfRange Hour)
   @ violation (\<not> (0 \<le> opt_value (g_minute m) \<and> opt_value (g_minute m) \<le> 59))
       (FieldOutOfRange Minute)
   @ violation (\<not> (0 \<le> opt_value (g_second m) \<and> opt_value (g_second m) \<le> 59))
       (FieldOutOfRange Second)
   @ violation (signed_timezone m
               \<and> \<not> (0 \<le> opt_value (g_tz_hour m) \<and> opt_value (g_tz_hour m) \<le> 23))
       (FieldOutOfRange TzHour)
   @ violation (signed_timezone m
               \<and> \<not> (0 \<le> opt_value (g_tz_minute m) \<and> opt_value (g_tz_minute m) \<le> 59))
       (FieldOutOfRange TzMinute)"

definition day_in_range :: "regex_match \<Rightarrow> bool" where
  "day_in_range m =
     (1 \<le> decimal_value (g_day m)
      \<and> decimal_value (g_day m)
          \<le> calendar_days (decimal_value (g_year m)) (decimal_value (g_month m)))"

definition range_violations :: "regex_match \<Rightarrow> error list" where
  "range_violations m = field_violations m @ violation (\<not> day_in_range m) DayOutOfRange"

definition violations :: "regex_match \<Rightarrow> error list" where
  "violations m =
     violation (inconsistent (g_hyphen m) (g_colon m)) InconsistentFormat @ range_violations m"

text \<open>The text of a number in decimal digits, padded with zeros on the left to a width\<close>

definition digit_char :: "nat \<Rightarrow> char" where
  "digit_char k = char_of (48 + k)"

fun zero_padded :: "nat \<Rightarrow> nat \<Rightarrow> string" where
  "zero_padded 0 k = []"
| "zero_padded (Suc w) k = zero_padded w (k div 10) @ [digit_char (k mod 10)]"

text \<open>The order in which the specification lists the checks\<close>

definition check_order :: "error list" where
  "check_order =
     [InconsistentFormat, FieldOutOfRange Year, FieldOutOfRange Month, FieldOutOfRange Hour,
      FieldOutOfRange Minute, FieldOutOfRange Second, FieldOutOfRange TzHour,
      FieldOutOfRange TzMinute, DayOutOfRange]"

text \<open>The microseconds that the digits of a fraction denote: the digits padded with zeros
  on the right to six digits, read as a number\<close>

definition padded_microsecond :: "string \<Rightarrow> int" where
  "padded_microsecond ds = decimal_value (ds @ replicate (6 - length ds) CHR ''0'')"

section \<open>Properties of the grammar matcher\<close>

lemma digits_SomeD:
  "digits n s = Some (d, r) \<Longrightarrow> digit_text n d \<and> s = d @ r"
  by (auto simp: digits_def digit_text_def split: if_splits)

lemma lit_SomeD: "lit c s = Some r \<Longrightarrow> s = c # r"
  by (auto simp: lit_def split: list.splits if_splits)

lemma orelse_SomeD: "orelse a b = Some x \<Longrightarrow> a = Some x \<or> (a = None \<and> b = Some x)"
  by (cases a) (auto simp: orelse_def)

lemma tz_shape_update [simp]:
  "tz_shape (m\<lparr>g_year := y\<rparr>) = tz_shape m"
  "tz_shape (m\<lparr>g_hyphen := hy\<rparr>) = tz_shape m"
  "tz_shape (m\<lparr>g_month := mo\<rparr>) = tz_shape m"
  "tz_shape (m\<lparr>g_day := d\<rparr>) = tz_shape m"
  "tz_shape (m\<lparr>g_hour := h\<rparr>) = tz_shape m"
  "tz_shape (m\<lparr>g_colon := c\<rparr>) = tz_shape m"
  "tz_shape (m\<lparr>g_minute := mi\<rparr>) = tz_shape m"
  "tz_shape (m\<lparr>g_second := se\<rparr>) = tz_shape m"
  "tz_shape (m\<lparr>g_subsecond := su\<rparr>) = tz_shape m"
  by (simp_all add: tz_shape_def)

lemma time_shape_update [simp]:
  "time_shape (m\<lparr>g_year := y\<rparr>) = time_shape m"
  "time_shape (m\<lparr>g_hyphen := hy\<rparr>) = time_shape m"
  "time_shape (m\<lparr>g_month := mo\<rparr>) = time_shape m"
  "time_shape (m\<lparr>g_day := d\<rparr>) = time_shape m"
  by (simp_all add: time_shape_def)

lemma match_tz_minute_shape:
  assumes "match_tz_minute s = Some m"
  shows "m = no_groups \<or> (\<exists>d. digit_text 2 d \<and> m = no_groups\<lparr>g_tz_minute := Some d\<rparr>)"
  using assms unfolding match_tz_minute_def Let_def
  by (auto dest!: orelse_SomeD digits_SomeD split: option.splits if_splits prod.splits)

lemma tz_span_sign:
  assumes "digit_text 2 d"
  shows "tz_span (c # d @ r) \<noteq> ''Z''"
proof -
  obtain a b where d: "d = [a, b]"
    using assms by (cases d; cases "tl d"; cases "tl (tl d)") (auto simp: digit_text_def)
  show ?thesis unfolding d tz_span_def by (cases r rule: rev_cases) auto
qed

lemma match_timezone_shape:
  assumes "match_timezone s = Some m"
  shows "tz_shape m \<and> g_hour m = None \<and> g_colon m = None \<and> g_minute m = None
       \<and> g_second m = None \<and> g_subsecond m = None"
proof -
  from assms consider
      (z) "m = no_groups\<lparr>g_timezone := Some ''Z''\<rparr>"
    | (signed) r h r' m' where "lit CHR ''+'' s = Some r \<or> lit CHR ''-'' s = Some r"
        "digits 2 r = Some (h, r')" "match_tz_minute r' = Some m'"
        "m = m'\<lparr>g_timezone := Some (tz_span s), g_sign := Some (take 1 s), g_tz_hour := Some h\<rparr>"
    | (none) "m = no_groups"
    unfolding match_timezone_def
    by (auto dest!: orelse_SomeD split: option.splits if_splits prod.splits)
  then show ?thesis
  proof cases
    case z
    then show ?thesis by (simp add: tz_shape_def no_groups_def)
  next
    case signed
    from signed(2) have h: "digit_text 2 h" "r = h @ r'" by (auto dest: digits_SomeD)
    from signed(1) have s: "s = CHR ''+'' # r \<or> s = CHR ''-'' # r" by (auto dest: lit_SomeD)
    from s h have span: "tz_span s \<noteq> ''Z''" by (auto simp: tz_span_sign)
    from s have sign: "take 1 s = ''+'' \<or> take 1 s = ''-''" by auto
    from match_tz_minute_shape[OF signed(3)] show ?thesis
      using h(1) span sign unfolding signed(4)
      by (auto simp: tz_shape_def no_groups_def opt_digit_text_def)
  next
    case none
    then show ?thesis by (simp add: tz_shape_def no_groups_def)
  qed
qed

lemma backref_SomeD: "backref g s = Some r \<Longrightarrow> s = g @ r"
  by (auto simp: backref_def split: if_splits) (metis append_take_drop_id)

lemma match_subsecond_digits_shape:
  assumes "match_subsecond_digits n s = Some m" "n \<le> 6"
  shows "tz_shape m \<and> g_hour m = None \<and> g_colon m = None \<and> g_minute m = None
       \<and> g_second m = None \<and> subsecond_shape (g_subsecond m) \<and> g_subsecond m \<noteq> None"
  using assms
proof (induction n)
  case 0
  then show ?case by simp
next
  case (Suc n)
  from Suc.prems(1) consider
      (here) d r m' where "digits (Suc n) s = Some (d, r)" "match_timezone r = Some m'"
        "m = m'\<lparr>g_subsecond := Some d\<rparr>"
    | (fewer) "match_subsecond_digits n s = Some m"
    by (auto dest!: orelse_SomeD split: option.splits prod.splits)
  then show ?case
  proof cases
    case here
    from here(1) have "digit_text (Suc n) d" by (auto dest: digits_SomeD)
    with Suc.prems(2) have "subsecond_shape (Some d)"
      by (simp add: subsecond_shape_def digit_text_def)
    with match_timezone_shape[OF here(2)] show ?thesis unfolding here(3) by simp
  next
    case fewer
    with Suc show ?thesis by simp
  qed
qed

lemma match_subsecond_shape:
  assumes "match_subsecond s = Some m"
  shows "tz_shape m \<and> g_hour m = None \<and> g_colon m = None \<and> g_minute m = None
       \<and> g_second m = None \<and> subsecond_shape (g_subsecond m)"
proof -
  from assms consider
      (frac) r where "match_subsecond_digits 6 r = Some m"
    | (none) "match_timezone s = Some m"
    unfolding match_subsecond_def
    by (auto dest!: orelse_SomeD split: option.splits)
  then show ?thesis
  proof cases
    case frac
    from match_subsecond_digits_shape[OF this] show ?thesis by simp
  next
    case none
    from match_timezone_shape[OF this] show ?thesis by (simp add: subsecond_shape_def)
  qed
qed

lemma match_second_shape:
  assumes "match_second colon s = Some m"
  shows "tz_shape m \<and> g_hour m = None \<and> g_colon m = None \<and> g_minute m = None
       \<and> opt_digit_text 2 (g_second m) \<and> subsecond_shape (g_subsecond m)
       \<and> (g_second m = None \<longrightarrow> g_subsecond m = None)"
proof -
  from assms consider
      (sec) r sec r' m' where "digits 2 r = Some (sec, r')" "match_subsecond r' = Some m'"
        "m = m'\<lparr>g_second := Some sec\<rparr>"
    | (none) "match_timezone s = Some m"
    unfolding match_second_def
    by (auto dest!: orelse_SomeD split: option.splits prod.splits)
  then show ?thesis
  proof cases
    case sec
    from sec(1) have "digit_text 2 sec" by (auto dest: digits_SomeD)
    with match_subsecond_shape[OF sec(2)] show ?thesis
      unfolding sec(3) by (simp add: opt_digit_text_def)
  next
    case none
    from match_timezone_shape[OF this] show ?thesis
      by (simp add: subsecond_shape_def opt_digit_text_def)
  qed
qed

lemma match_minute_shape:
  assumes "match_minute s = Some m"
  shows "tz_shape m \<and> g_hour m = None
       \<and> (g_colon m = None \<or> g_colon m = Some [] \<or> g_colon m = Some '':'')
       \<and> (g_colon m = None \<longleftrightarrow> g_minute m = None)
       \<and> opt_digit_text 2 (g_minute m)
       \<and> opt_digit_text 2 (g_second m) \<and> subsecond_shape (g_subsecond m)
       \<and> (g_minute m = None \<longrightarrow> g_second m = None)
       \<and> (g_second m = None \<longrightarrow> g_subsecond m = None)"
proof -
  from assms consider
      (minute) colon r mi r' m' where "colon = '':'' \<or> colon = []"
        "digits 2 r = Some (mi, r')" "match_second colon r' = Some m'"
        "m = m'\<lparr>g_colon := Some colon, g_minute := Some mi\<rparr>"
    | (none) "match_timezone s = Some m"
    unfolding match_minute_def Let_def
    by (elim orelse_SomeD[elim_format] disjE conjE; simp split: option.splits prod.splits; blast)
  then show ?thesis
  proof cases
    case minute
    from minute(2) have "digit_text 2 mi" by (auto dest: digits_SomeD)
    with match_second_shape[OF minute(3)] minute(1) show ?thesis
      unfolding minute(4) by (auto simp: opt_digit_text_def)
  next
    case none
    from match_timezone_shape[OF this] show ?thesis
      by (simp add: subsecond_shape_def opt_digit_text_def)
  qed
qed

lemma match_time_shape:
  assumes "match_time s = Some m"
  shows "tz_shape m \<and> time_shape m"
proof -
  from assms consider
      (time) r h r' m' where "digits 2 r = Some (h, r')" "match_minute r' = Some m'"
        "m = m'\<lparr>g_hour := Some h\<rparr>"
    | (none) "match_timezone s = Some m"
    unfolding match_time_def
    by (auto dest!: orelse_SomeD split: option.splits prod.splits)
  then show ?thesis
  proof cases
    case time
    from time(1) have "digit_text 2 h" by (auto dest: digits_SomeD)
    with match_minute_shape[OF time(2)] show ?thesis
      unfolding time(3) by (auto simp: opt_digit_text_def time_shape_def)
  next
    case none
    from match_timezone_shape[OF this] show ?thesis
      by (simp add: subsecond_shape_def opt_digit_text_def time_shape_def)
  qed
qed

lemma match_month_day_shape:
  assumes "match_month_day hyphen s = Some m"
  shows "tz_shape m \<and> time_shape m \<and> g_hyphen m = hyphen
       \<and> digit_text 2 (g_month m) \<and> digit_text 2 (g_day m)"
proof -
  from assms obtain mo r1 r2 d r3 m' where *: "digits 2 s = Some (mo, r1)"
      "digits 2 r2 = Some (d, r3)" "match_time r3 = Some m'"
      "m = m'\<lparr>g_hyphen := hyphen, g_month := mo, g_day := d\<rparr>"
    unfolding match_month_day_def
    by (auto split: option.splits prod.splits)
  from *(1,2) have "digit_text 2 mo" "digit_text 2 d" by (auto dest: digits_SomeD)
  with match_time_shape[OF *(3)] show ?thesis unfolding *(4) by simp
qed

lemma datetime_regex_shape:
  assumes "datetime_regex s = Some m"
  shows "tz_shape m \<and> time_shape m \<and> (g_hyphen m = [] \<or> g_hyphen m = ''-'')
       \<and> digit_text 4 (g_year m) \<and> digit_text 2 (g_month m) \<and> digit_text 2 (g_day m)"
proof -
  from assms obtain y r hyphen r' m' where *: "digits 4 s = Some (y, r)"
      "hyphen = [] \<or> hyphen = ''-''" "match_month_day hyphen r' = Some m'"
      "m = m'\<lparr>g_year := y\<rparr>"
    unfolding datetime_regex_def
    by (auto dest!: orelse_SomeD split: option.splits prod.splits)
  from *(1) have "digit_text 4 y" by (auto dest: digits_SomeD)
  with match_month_day_shape[OF *(3)] *(2) show ?thesis unfolding *(4) by auto
qed

section \<open>Properties of the double-precision arithmetic\<close>

lemma round_half_even_cases:
  "round_half_even n d = n div d \<or> (round_half_even n d = n div d + 1 \<and> d \<le> 2 * (n mod d))"
  by (auto simp: round_half_even_def Let_def)

lemma round_half_even_upper:
  assumes "0 < d"
  shows "2 * d * round_half_even n d \<le> 2 * n + d"
proof -
  define q where "q = n div d"
  define r where "r = n mod d"
  have n: "n = d * q + r" by (simp add: q_def r_def)
  have r: "0 \<le> r" using assms by (simp add: r_def)
  from round_half_even_cases[of n d]
  have "round_half_even n d = q \<or> (round_half_even n d = q + 1 \<and> d \<le> 2 * r)"
    by (simp add: q_def r_def)
  then show ?thesis
  proof
    assume "round_half_even n d = q"
    then show ?thesis using r assms by (simp add: n algebra_simps)
  next
    assume "round_half_even n d = q + 1 \<and> d \<le> 2 * r"
    then show ?thesis by (simp add: n algebra_simps)
  qed
qed

lemma round_half_even_nonneg:
  assumes "0 < d" "0 \<le> n"
  shows "0 \<le> round_half_even n d"
proof -
  have "0 \<le> n div d" using assms by (simp add: pos_imp_zdiv_nonneg_iff)
  with round_half_even_cases[of n d] show ?thesis by auto
qed

lemma scale_ratio_val:
  assumes "0 < b" "scale_ratio a b s = (n, d)"
  shows "0 < d \<and> real_of_int n / real_of_int d
           = (real_of_int a / real_of_int b) / 2 powr (real_of_int s)"
proof (cases "0 \<le> s")
  case True
  then have "2 powr (real_of_int s) = 2 ^ nat s" by (simp add: powr_int)
  then show ?thesis using assms True by (auto simp: scale_ratio_def)
next
  case False
  then have "2 powr (real_of_int s) = 1 / 2 ^ nat (- s)" by (simp add: powr_int)
  then show ?thesis using assms False by (auto simp: scale_ratio_def)
qed

lemma two_powr_of_int:
  "0 \<le> k \<Longrightarrow> 2 powr (real_of_int k) = real_of_int (2 ^ nat k)"
  by (simp add: powr_int)

lemma bitlen_quotient_lower:
  assumes "0 < a" "0 < b"
  shows "2 powr (real_of_int (bitlen a - bitlen b - 1)) \<le> real_of_int a / real_of_int b"
proof -
  have la: "1 \<le> bitlen a" using assms(1) by (simp add: bitlen_alt_def)
  have lb: "1 \<le> bitlen b" using assms(2) by (simp add: bitlen_alt_def)
  have "2 ^ nat (bitlen a - 1) \<le> a" using bitlen_bounds[OF assms(1)] by simp
  then have "real_of_int (2 ^ nat (bitlen a - 1)) \<le> real_of_int a" by (rule of_int_le_iff[THEN iffD2])
  moreover have "0 \<le> bitlen a - 1" using la by simp
  ultimately have A: "2 powr (real_of_int (bitlen a - 1)) \<le> real_of_int a"
    by (simp only: two_powr_of_int)
  have "b < 2 ^ nat (bitlen b)" using bitlen_bounds[OF assms(2)] by simp
  then have "real_of_int b < real_of_int (2 ^ nat (bitlen b))" by (rule of_int_less_iff[THEN iffD2])
  moreover have "0 \<le> bitlen b" using lb by simp
  ultimately have B: "real_of_int b \<le> 2 powr (real_of_int (bitlen b))"
    by (simp only: two_powr_of_int)
  have "2 powr (real_of_int (bitlen a - bitlen b - 1))
        = 2 powr (real_of_int (bitlen a - 1)) / 2 powr (real_of_int (bitlen b))"
    by (simp add: powr_diff[symmetric] algebra_simps)
  also have "\<dots> \<le> real_of_int a / real_of_int b"
    using A B assms by (intro frac_le) auto
  finally show ?thesis .
qed

lemma round_ratio_upper:
  assumes "0 < a" "0 < b"
  shows "0 \<le> fst (round_ratio a b)
       \<and> dval (round_ratio a b) \<le> (real_of_int a / real_of_int b) * (1 + 2 powr (- 53))"
proof -
  define x where "x = real_of_int a / real_of_int b"
  have xpos: "0 < x" using assms by (simp add: x_def)
  define e0 where "e0 = bitlen a - bitlen b - 1"
  define e where "e = (case scale_ratio a b (e0 + 1) of (n0, d0) \<Rightarrow> if d0 \<le> n0 then e0 + 1 else e0)"
  have e_le: "2 powr (real_of_int e) \<le> x"
  proof -
    obtain n0 d0 where s0: "scale_ratio a b (e0 + 1) = (n0, d0)" by (cases "scale_ratio a b (e0 + 1)")
    from scale_ratio_val[OF assms(2) s0]
    have d0: "0 < d0" and q0: "real_of_int n0 / real_of_int d0 = x / 2 powr (real_of_int (e0 + 1))"
      by (simp_all add: x_def)
    show ?thesis
    proof (cases "d0 \<le> n0")
      case True
      then have "e = e0 + 1" by (simp add: e_def s0)
      moreover have "1 \<le> real_of_int n0 / real_of_int d0" using True d0 by simp
      ultimately show ?thesis using q0 by (simp add: pos_le_divide_eq)
    next
      case False
      then have "e = e0" by (simp add: e_def s0)
      then show ?thesis using bitlen_quotient_lower[OF assms] by (simp add: e0_def x_def)
    qed
  qed
  obtain n d where s: "scale_ratio a b (e - 52) = (n, d)" by (cases "scale_ratio a b (e - 52)")
  from scale_ratio_val[OF assms(2) s]
  have d: "0 < d" and q: "real_of_int n / real_of_int d = x / 2 powr (real_of_int (e - 52))"
    by (simp_all add: x_def)
  have "round_ratio a b
        = (case scale_ratio a b (e - 52) of (n, d) \<Rightarrow> (round_half_even n d, e - 52))"
    unfolding round_ratio_def Let_def e_def e0_def using assms(1) by simp
  then have rr: "round_ratio a b = (round_half_even n d, e - 52)"
    by (simp add: s)
  have "0 < real_of_int n / real_of_int d" unfolding q using xpos by simp
  then have n: "0 \<le> n" using d by (simp add: zero_less_divide_iff)
  define m where "m = round_half_even n d"
  have m0: "0 \<le> m" unfolding m_def by (rule round_half_even_nonneg[OF d n])
  have "2 * d * m \<le> 2 * n + d" unfolding m_def by (rule round_half_even_upper[OF d])
  then have "real_of_int (2 * d * m) \<le> real_of_int (2 * n + d)" by (rule of_int_le_iff[THEN iffD2])
  then have "real_of_int m * (2 * real_of_int d) \<le> 2 * real_of_int n + real_of_int d"
    by (simp add: mult.commute mult.left_commute)
  then have "real_of_int m \<le> (2 * real_of_int n + real_of_int d) / (2 * real_of_int d)"
    using d by (simp add: pos_le_divide_eq)
  also have "\<dots> = real_of_int n / real_of_int d + 1 / 2"
    using d by (simp add: field_simps)
  finally have m_le: "real_of_int m \<le> x / 2 powr (real_of_int (e - 52)) + 1 / 2"
    by (simp add: q)
  have p: "0 < (2::real) powr (real_of_int (e - 52))" by simp
  have "real_of_int m * 2 powr (real_of_int (e - 52))
        \<le> (x / 2 powr (real_of_int (e - 52)) + 1 / 2) * 2 powr (real_of_int (e - 52))"
    using m_le p by (simp only: mult_le_cancel_right_pos)
  also have "\<dots> = x + 2 powr (real_of_int (e - 52)) / 2"
    by (simp add: field_simps)
  also have "2 powr (real_of_int (e - 52)) / 2 = 2 powr (real_of_int e) * 2 powr (- 53)"
    by (simp add: powr_diff powr_minus field_simps)
  also have "x + 2 powr (real_of_int e) * 2 powr (- 53) \<le> x + x * 2 powr (- 53)"
    using e_le by simp
  finally have "real_of_int m * 2 powr (real_of_int (e - 52)) \<le> x * (1 + 2 powr (- 53))"
    by (simp add: algebra_simps)
  then show ?thesis using m0 by (simp add: rr dval_def m_def x_def)
qed

lemma float_mul_upper:
  assumes "0 < fst x" "0 < fst y"
  shows "0 \<le> fst (float_mul x y) \<and> dval (float_mul x y) \<le> dval x * dval y * (1 + 2 powr (- 53))"
proof -
  obtain m1 e1 where x: "x = (m1, e1)" by (cases x)
  obtain m2 e2 where y: "y = (m2, e2)" by (cases y)
  from assms have pos: "0 < m1 * m2" by (simp add: x y)
  have prod: "dval x * dval y = real_of_int (m1 * m2) * 2 powr (real_of_int (e1 + e2))"
    by (simp add: x y dval_def powr_add)
  show ?thesis
  proof (cases "0 \<le> e1 + e2")
    case True
    then have fm: "float_mul x y = round_ratio (m1 * m2 * 2 ^ nat (e1 + e2)) 1"
      by (simp add: float_mul_def x y)
    have "0 < m1 * m2 * 2 ^ nat (e1 + e2)" using pos by simp
    from round_ratio_upper[OF this, of 1]
    have "0 \<le> fst (float_mul x y) \<and> dval (float_mul x y)
            \<le> real_of_int (m1 * m2 * 2 ^ nat (e1 + e2)) * (1 + 2 powr (- 53))"
      by (simp add: fm)
    moreover have "real_of_int (m1 * m2 * 2 ^ nat (e1 + e2)) = dval x * dval y"
      unfolding prod two_powr_of_int[OF True] by simp
    ultimately show ?thesis by simp
  next
    case False
    then have fm: "float_mul x y = round_ratio (m1 * m2) (2 ^ nat (- (e1 + e2)))"
      by (simp add: float_mul_def x y)
    have b: "(0::int) < 2 ^ nat (- (e1 + e2))" by simp
    from round_ratio_upper[OF pos b]
    have "0 \<le> fst (float_mul x y) \<and> dval (float_mul x y)
            \<le> real_of_int (m1 * m2) / real_of_int (2 ^ nat (- (e1 + e2))) * (1 + 2 powr (- 53))"
      by (simp only: fm)
    moreover have "real_of_int (m1 * m2) / real_of_int (2 ^ nat (- (e1 + e2))) = dval x * dval y"
    proof -
      define t where "t = real_of_int (e1 + e2)"
      have "0 \<le> - (e1 + e2)" using False by simp
      from two_powr_of_int[OF this] have pw: "real_of_int (2 ^ nat (- (e1 + e2))) = 2 powr (- t)"
        by (simp add: t_def)
      show ?thesis unfolding prod pw t_def[symmetric] powr_minus_divide by simp
    qed
    ultimately show ?thesis by (simp only:)
  qed
qed

lemma float_mul_zero: "fst x = 0 \<Longrightarrow> float_mul x y = (0, 0)"
  by (cases x; cases y) (simp add: float_mul_def round_ratio_def)

lemma int_of_float_bounds:
  assumes "0 \<le> fst x"
  shows "0 \<le> int_of_float x \<and> real_of_int (int_of_float x) \<le> dval x"
proof -
  obtain m e where x: "x = (m, e)" by (cases x)
  from assms have m: "0 \<le> m" by (simp add: x)
  show ?thesis
  proof (cases "0 \<le> e")
    case True
    then show ?thesis using m two_powr_of_int[OF True] by (simp add: x int_of_float_def dval_def)
  next
    case False
    then have e: "0 \<le> - e" by simp
    have i: "int_of_float x = m div 2 ^ nat (- e)" using False by (simp add: x int_of_float_def)
    have "real_of_int (m div 2 ^ nat (- e)) \<le> real_of_int m / real_of_int (2 ^ nat (- e))"
      by (rule real_of_int_div4)
    also have "\<dots> = dval x"
      using two_powr_of_int[OF e] by (simp add: x dval_def powr_minus field_simps)
    finally show ?thesis using m by (simp add: i pos_imp_zdiv_nonneg_iff)
  qed
qed

lemma float_of_int_million: "float_of_int 1000000 = (8589934592000000, - 33)"
  by code_simp

lemma dval_million: "dval (float_of_int 1000000) = 1000000"
  by (simp add: float_of_int_million dval_def powr_minus)

lemma decimal_value_snoc: "decimal_value (s @ [c]) = 10 * decimal_value s + digit_val c"
  by (simp add: decimal_value_def)

lemma digit_val_bounds: "is_digit c \<Longrightarrow> 0 \<le> digit_val c \<and> digit_val c \<le> 9"
  by (auto simp: is_digit_def digit_val_def)

lemma decimal_value_bounds:
  "list_all is_digit s \<Longrightarrow> 0 \<le> decimal_value s \<and> decimal_value s < 10 ^ length s"
proof (induction s rule: rev_induct)
  case Nil
  then show ?case by (simp add: decimal_value_def)
next
  case (snoc c s)
  then have IH: "0 \<le> decimal_value s" "decimal_value s + 1 \<le> 10 ^ length s" by simp_all
  from snoc.prems have "0 \<le> digit_val c" "digit_val c \<le> 9" using digit_val_bounds by simp_all
  with IH show ?case by (simp add: decimal_value_snoc)
qed

lemma digit_text_value:
  "digit_text n s \<Longrightarrow> 0 \<le> decimal_value s \<and> decimal_value s < 10 ^ n"
  using decimal_value_bounds[of s] by (auto simp: digit_text_def)

lemma py_int_digit_text:
  "digit_text n s \<Longrightarrow> 0 < n \<Longrightarrow> py_int s = Inr (decimal_value s)"
  by (auto simp: py_int_def digit_text_def)

lemma microsecond_of_bounds:
  assumes "subsecond_shape g"
  shows "0 \<le> microsecond_of g \<and> microsecond_of g \<le> 999999"
proof (cases g)
  case None
  then show ?thesis by (simp add: microsecond_of_def)
next
  case (Some ds)
  with assms have len: "1 \<le> length ds" "length ds \<le> 6" and dig: "list_all is_digit ds"
    by (simp_all add: subsecond_shape_def)
  define a where "a = decimal_value ds"
  define x where "x = float_of_fraction ds"
  define M where "M = float_of_int 1000000"
  have mu: "microsecond_of g = int_of_float (float_mul x M)"
    by (simp add: Some microsecond_of_def x_def M_def)
  from decimal_value_bounds[OF dig] have a: "0 \<le> a" "a + 1 \<le> 10 ^ length ds"
    by (simp_all add: a_def)
  have pw: "(10::int) ^ length ds \<le> 10 ^ 6" using len(2) by (intro power_increasing) simp_all
  show ?thesis
  proof (cases "0 < fst x")
    case False
    have "0 \<le> fst x"
    proof (cases "a = 0")
      case True
      then show ?thesis by (simp add: x_def float_of_fraction_def a_def[symmetric] round_ratio_def)
    next
      case False
      with a have "0 < a" by simp
      from round_ratio_upper[OF this, of "10 ^ length ds"] show ?thesis
        by (simp add: x_def float_of_fraction_def a_def)
    qed
    with False have "fst x = 0" by simp
    then show ?thesis by (simp add: mu float_mul_zero int_of_float_def)
  next
    case True
    then have apos: "0 < a"
      by (cases "a = 0") (use a in \<open>auto simp: x_def float_of_fraction_def a_def[symmetric] round_ratio_def\<close>)
    define q where "q = real_of_int a / real_of_int (10 ^ length ds)"
    define eps where "eps = (2::real) powr (- 53)"
    have eps: "eps = 1 / 2 ^ 53" by (simp add: eps_def powr_minus_divide)
    from round_ratio_upper[OF apos, of "10 ^ length ds"]
    have xq: "dval x \<le> q * (1 + eps)"
      by (simp add: x_def float_of_fraction_def a_def q_def eps_def)
    have Mpos: "0 < fst M" by (simp add: M_def float_of_int_million)
    from float_mul_upper[OF True Mpos]
    have p: "0 \<le> fst (float_mul x M)" "dval (float_mul x M) \<le> dval x * 1000000 * (1 + eps)"
      by (simp_all add: M_def dval_million eps_def)
    have "a * 10 ^ 6 \<le> 999999 * 10 ^ length ds"
    proof -
      have "a * 10 ^ 6 \<le> (10 ^ length ds - 1) * 10 ^ 6" using a(2) by simp
      also have "\<dots> = 10 ^ length ds * 10 ^ 6 - 10 ^ 6" by (simp add: algebra_simps)
      also have "\<dots> \<le> 10 ^ length ds * 10 ^ 6 - 10 ^ length ds" using pw by simp
      also have "\<dots> = 999999 * 10 ^ length ds" by simp
      finally show ?thesis .
    qed
    then have "real_of_int (a * 10 ^ 6) \<le> real_of_int (999999 * 10 ^ length ds)"
      by (rule of_int_le_iff[THEN iffD2])
    then have q: "q * 1000000 \<le> 999999"
      by (simp add: q_def pos_divide_le_eq)
    have q0: "0 \<le> q" using a(1) by (simp add: q_def)
    have "dval x * 1000000 * (1 + eps) \<le> (q * (1 + eps)) * 1000000 * (1 + eps)"
      using xq by (simp add: eps)
    also have "\<dots> = (q * 1000000) * ((1 + eps) * (1 + eps))" by (simp add: algebra_simps)
    also have "\<dots> \<le> 999999 * ((1 + eps) * (1 + eps))"
      using q by (intro mult_right_mono) (simp_all add: eps)
    also have "\<dots> < 1000000" by (simp add: eps)
    finally have "dval x * 1000000 * (1 + eps) < 1000000" .
    with p(2) have "dval (float_mul x M) < 1000000" by simp
    with int_of_float_bounds[OF p(1)] have "0 \<le> int_of_float (float_mul x M)"
      "real_of_int (int_of_float (float_mul x M)) < 1000000" by simp_all
    then show ?thesis unfolding mu by linarith
  qed
qed

section \<open>The checks of \<open>parse_iso8601\<close> on a match\<close>

lemma opt_digit_text_value:
  "opt_digit_text n g \<Longrightarrow> 0 \<le> opt_value g \<and> opt_value g < 10 ^ n"
  using digit_text_value by (cases g) (auto simp: opt_digit_text_def opt_value_def)

lemma group_int_or_0_digit_text:
  "opt_digit_text n g \<Longrightarrow> 0 < n \<Longrightarrow> group_int_or_0 g = Inr (opt_value g)"
  by (cases g) (auto simp: group_int_or_0_def opt_value_def opt_digit_text_def
        py_int_digit_text digit_text_def)

lemma days_in_february_leap: "days_in_february y = (if gregorian_leap y then 29 else 28)"
  by (simp add: days_in_february_def gregorian_leap_def Let_def)

lemma month_cases:
  "1 \<le> mo \<Longrightarrow> mo \<le> 12 \<Longrightarrow>
   mo = 1 \<or> mo = 2 \<or> mo = 3 \<or> mo = 4 \<or> mo = 5 \<or> mo = 6 \<or> mo = 7 \<or> mo = 8
   \<or> mo = 9 \<or> mo = 10 \<or> mo = 11 \<or> mo = (12::int)"
  by arith

lemma lookup_days_in_month:
  assumes "1 \<le> mo" "mo \<le> 12"
  shows "lookup (days_in_month (days_in_february y)) mo = Inr (calendar_days y mo)"
  using month_cases[OF assms]
  by (elim disjE) (simp_all add: lookup_def days_in_month_def calendar_days_def days_in_february_leap)

lemma lib_days_in_month_calendar:
  assumes "1 \<le> mo" "mo \<le> 12"
  shows "lib_days_in_month y mo = calendar_days y mo"
  using month_cases[OF assms]
  by (elim disjE)
     (auto simp: lib_days_in_month_def calendar_days_def lib_is_leap_def gregorian_leap_def)

lemma tzinfo_of_shape:
  assumes "tz_shape m"
  shows "tzinfo_of m =
     (if signed_timezone m \<and> \<not> (0 \<le> opt_value (g_tz_hour m) \<and> opt_value (g_tz_hour m) \<le> 23)
        then Inl (FieldOutOfRange TzHour)
      else if signed_timezone m
            \<and> \<not> (0 \<le> opt_value (g_tz_minute m) \<and> opt_value (g_tz_minute m) \<le> 59)
        then Inl (FieldOutOfRange TzMinute)
      else Inr (offset_minutes m))"
proof -
  from assms consider
      (none) "g_timezone m = None"
    | (utc) "g_timezone m = Some ''Z''"
    | (signed) tz h where "g_timezone m = Some tz" "tz \<noteq> ''Z''"
        "g_sign m = Some ''+'' \<or> g_sign m = Some ''-''"
        "g_tz_hour m = Some h" "digit_text 2 h" "opt_digit_text 2 (g_tz_minute m)"
    unfolding tz_shape_def by fastforce
  then show ?thesis
  proof cases
    case none
    then show ?thesis by (simp add: tzinfo_of_def signed_timezone_def offset_minutes_def)
  next
    case utc
    then show ?thesis
      by (simp add: tzinfo_of_def signed_timezone_def offset_minutes_def timezone_utc_def)
  next
    case signed
    have sg: "signed_timezone m" using signed(1,2) by (simp add: signed_timezone_def)
    have h: "group_int (g_tz_hour m) = Inr (opt_value (g_tz_hour m))"
      using signed(4,5) by (simp add: group_int_def opt_value_def py_int_digit_text)
    have mi: "group_int_or_0 (g_tz_minute m) = Inr (opt_value (g_tz_minute m))"
      using signed(6) by (simp add: group_int_or_0_digit_text)
    have hb: "0 \<le> opt_value (g_tz_hour m)"
      using signed(4,5) digit_text_value[of 2 h] by (simp add: opt_value_def)
    have mb: "0 \<le> opt_value (g_tz_minute m)"
      using opt_digit_text_value[OF signed(6)] by simp
    show ?thesis
      using signed(1,2) hb mb
      by (auto simp: tzinfo_of_def h mi sg and_then_def offset_minutes_def Let_def
            timezone_ctor_def timedelta_def)
  qed
qed

lemma parse_iso8601_chain:
  assumes "datetime_regex s = Some m"
  shows "parse_iso8601 s =
     (if inconsistent (g_hyphen m) (g_colon m) then Inl InconsistentFormat
      else if decimal_value (g_year m) < 1 then Inl (FieldOutOfRange Year)
      else if \<not> (1 \<le> decimal_value (g_month m) \<and> decimal_value (g_month m) \<le> 12)
        then Inl (FieldOutOfRange Month)
      else if \<not> (0 \<le> opt_value (g_hour m) \<and> opt_value (g_hour m) \<le> 23)
        then Inl (FieldOutOfRange Hour)
      else if \<not> (0 \<le> opt_value (g_minute m) \<and> opt_value (g_minute m) \<le> 59)
        then Inl (FieldOutOfRange Minute)
      else if \<not> (0 \<le> opt_value (g_second m) \<and> opt_value (g_second m) \<le> 59)
        then Inl (FieldOutOfRange Second)
      else if signed_timezone m
            \<and> \<not> (0 \<le> opt_value (g_tz_hour m) \<and> opt_value (g_tz_hour m) \<le> 23)
        then Inl (FieldOutOfRange TzHour)
      else if signed_timezone m
            \<and> \<not> (0 \<le> opt_value (g_tz_minute m) \<and> opt_value (g_tz_minute m) \<le> 59)
        then Inl (FieldOutOfRange TzMinute)
      else if \<not> (1 \<le> decimal_value (g_day m)
                 \<and> decimal_value (g_day m)
                     \<le> calendar_days (decimal_value (g_year m)) (decimal_value (g_month m)))
        then Inl DayOutOfRange
      else Inr (timestamp_of m))"
proof -
  from datetime_regex_shape[OF assms] have tz: "tz_shape m" and tm: "time_shape m"
    and y: "digit_text 4 (g_year m)" and mo: "digit_text 2 (g_month m)"
    and d: "digit_text 2 (g_day m)" by simp_all
  from tm have h: "opt_digit_text 2 (g_hour m)" and mi: "opt_digit_text 2 (g_minute m)"
    and se: "opt_digit_text 2 (g_second m)" and su: "subsecond_shape (g_subsecond m)"
    by (simp_all add: time_shape_def)
  have ints: "py_int (g_year m) = Inr (decimal_value (g_year m))"
    "py_int (g_month m) = Inr (decimal_value (g_month m))"
    "py_int (g_day m) = Inr (decimal_value (g_day m))"
    "group_int_or_0 (g_hour m) = Inr (opt_value (g_hour m))"
    "group_int_or_0 (g_minute m) = Inr (opt_value (g_minute m))"
    "group_int_or_0 (g_second m) = Inr (opt_value (g_second m))"
    using y mo d h mi se by (simp_all add: py_int_digit_text group_int_or_0_digit_text)
  have yb: "decimal_value (g_year m) \<le> 9999" using digit_text_value[OF y] by simp
  note us = microsecond_of_bounds[OF su]
  have ctor: "datetime_ctor (decimal_value (g_year m)) (decimal_value (g_month m))
       (decimal_value (g_day m)) (opt_value (g_hour m)) (opt_value (g_minute m))
       (opt_value (g_second m)) (microsecond_of (g_subsecond m)) (offset_minutes m)
      = Inr (timestamp_of m)"
    if "1 \<le> decimal_value (g_year m)"
       "1 \<le> decimal_value (g_month m)" "decimal_value (g_month m) \<le> 12"
       "0 \<le> opt_value (g_hour m)" "opt_value (g_hour m) \<le> 23"
       "0 \<le> opt_value (g_minute m)" "opt_value (g_minute m) \<le> 59"
       "0 \<le> opt_value (g_second m)" "opt_value (g_second m) \<le> 59"
       "1 \<le> decimal_value (g_day m)"
       "decimal_value (g_day m)
          \<le> calendar_days (decimal_value (g_year m)) (decimal_value (g_month m))"
    using that yb us
    by (simp add: datetime_ctor_def lib_days_in_month_calendar timestamp_of_def)
  have nonneg: "0 \<le> opt_value (g_hour m)" "0 \<le> opt_value (g_minute m)"
    "0 \<le> opt_value (g_second m)"
    using opt_digit_text_value[OF h] opt_digit_text_value[OF mi] opt_digit_text_value[OF se]
    by simp_all
  note defs = parse_iso8601_def assms ints and_then_def tzinfo_of_shape[OF tz] Let_def
  show ?thesis
  proof (cases "inconsistent (g_hyphen m) (g_colon m)")
    case True
    then show ?thesis by (simp add: defs)
  next
    case c1: False
    show ?thesis
    proof (cases "decimal_value (g_year m) < 1")
      case True
      with c1 show ?thesis by (simp add: defs)
    next
      case c2: False
      show ?thesis
      proof (cases "1 \<le> decimal_value (g_month m) \<and> decimal_value (g_month m) \<le> 12")
        case False
        with c1 c2 show ?thesis by (simp add: defs)
      next
        case c3: True
        show ?thesis
        proof (cases "opt_value (g_hour m) \<le> 23")
          case False
          with c1 c2 c3 show ?thesis by (simp add: defs)
        next
          case c4: True
          show ?thesis
          proof (cases "opt_value (g_minute m) \<le> 59")
            case False
            with c1 c2 c3 c4 nonneg show ?thesis by (simp add: defs)
          next
            case c5: True
            show ?thesis
            proof (cases "opt_value (g_second m) \<le> 59")
              case False
              with c1 c2 c3 c4 c5 nonneg show ?thesis by (simp add: defs)
            next
              case c6: True
              note early = c1 c2 c3 c4 c5 c6 nonneg
              show ?thesis
              proof (cases "signed_timezone m
                  \<and> \<not> (0 \<le> opt_value (g_tz_hour m) \<and> opt_value (g_tz_hour m) \<le> 23)")
                case True
                with early show ?thesis by (simp add: defs)
              next
                case c7: False
                show ?thesis
                proof (cases "signed_timezone m
                    \<and> \<not> (0 \<le> opt_value (g_tz_minute m) \<and> opt_value (g_tz_minute m) \<le> 59)")
                  case True
                  with early c7 show ?thesis by (simp add: defs)
                next
                  case c8: False
                  have lk: "lookup (days_in_month (days_in_february (decimal_value (g_year m))))
                        (decimal_value (g_month m))
                      = Inr (calendar_days (decimal_value (g_year m)) (decimal_value (g_month m)))"
                    using c3 by (simp add: lookup_days_in_month)
                  show ?thesis
                  proof (cases "1 \<le> decimal_value (g_day m) \<and> decimal_value (g_day m)
                      \<le> calendar_days (decimal_value (g_year m)) (decimal_value (g_month m))")
                    case False
                    with early c7 c8 show ?thesis by (simp add: defs lk)
                  next
                    case c9: True
                    have "datetime_ctor (decimal_value (g_year m)) (decimal_value (g_month m))
                        (decimal_value (g_day m)) (opt_value (g_hour m)) (opt_value (g_minute m))
                        (opt_value (g_second m)) (microsecond_of (g_subsecond m))
                        (offset_minutes m) = Inr (timestamp_of m)"
                      using early c3 c9 by (intro ctor) simp_all
                    with early c7 c8 c9 show ?thesis by (simp add: defs lk)
                  qed
                qed
              qed
            qed
          qed
        qed
      qed
    qed
  qed
qed

lemma case_violation_append:
  "(case violation c e @ rest of [] \<Rightarrow> a | x # xs \<Rightarrow> Inl x)
   = (if c then Inl e else (case rest of [] \<Rightarrow> a | x # xs \<Rightarrow> Inl x))"
  by (simp add: violation_def)

lemma case_violation_last:
  "(case violation c e of [] \<Rightarrow> a | x # xs \<Rightarrow> Inl x) = (if c then Inl e else a)"
  by (simp add: violation_def)

lemma parse_iso8601_violations:
  assumes "datetime_regex s = Some m"
  shows "parse_iso8601 s =
     (case violations m of [] \<Rightarrow> Inr (timestamp_of m) | e # es \<Rightarrow> Inl e)"
  unfolding parse_iso8601_chain[OF assms] violations_def range_violations_def
    field_violations_def day_in_range_def
  by (simp only: case_violation_append case_violation_last append_assoc)

section \<open>Date-only texts\<close>

lemma is_digit_digit_char: "k < 10 \<Longrightarrow> is_digit (digit_char k)"
  by (simp add: is_digit_def digit_char_def)

lemma digit_val_digit_char: "k < 10 \<Longrightarrow> digit_val (digit_char k) = int k"
  by (simp add: digit_val_def digit_char_def)

lemma zero_padded_digit_text: "digit_text w (zero_padded w k)"
  by (induction w arbitrary: k) (simp_all add: digit_text_def is_digit_digit_char)

lemma decimal_value_zero_padded:
  "k < 10 ^ w \<Longrightarrow> decimal_value (zero_padded w k) = int k"
proof (induction w arbitrary: k)
  case 0
  then show ?case by (simp add: decimal_value_def)
next
  case (Suc w)
  from Suc.prems have "k div 10 < 10 ^ w" by (simp add: less_mult_imp_div_less mult.commute)
  with Suc.IH have "decimal_value (zero_padded w (k div 10)) = int (k div 10)" by simp
  then show ?case by (simp add: decimal_value_snoc digit_val_digit_char zdiv_int zmod_int)
qed

lemma digits_append: "digit_text n d \<Longrightarrow> digits n (d @ r) = Some (d, r)"
  by (simp add: digits_def digit_text_def)

lemma match_timezone_Nil: "match_timezone [] = Some no_groups"
  by (simp add: match_timezone_def lit_def orelse_def at_end_def)

lemma match_time_Nil: "match_time [] = Some no_groups"
  by (simp add: match_time_def lit_def orelse_def match_timezone_Nil)

lemma datetime_regex_date_only:
  assumes "digit_text 4 Y" "digit_text 2 M" "digit_text 2 D"
  shows "datetime_regex (Y @ ''-'' @ M @ ''-'' @ D)
         = Some (no_groups\<lparr>g_hyphen := ''-'', g_month := M, g_day := D, g_year := Y\<rparr>)"
proof -
  have "digits 2 D = Some (D, [])" using digits_append[OF assms(3), of "[]"] by simp
  then have "match_month_day ''-'' (M @ ''-'' @ D)
             = Some (no_groups\<lparr>g_hyphen := ''-'', g_month := M, g_day := D\<rparr>)"
    by (simp add: match_month_day_def digits_append[OF assms(2)] backref_def match_time_Nil)
  then show ?thesis
    by (simp add: datetime_regex_def digits_append[OF assms(1)] lit_def orelse_def)
qed

lemma violation_Nil [simp]: "violation c e = [] \<longleftrightarrow> \<not> c"
  by (simp add: violation_def)

lemma parse_iso8601_Inr_iff:
  assumes "datetime_regex s = Some m"
  shows "parse_iso8601 s = Inr ts \<longleftrightarrow> violations m = [] \<and> ts = timestamp_of m"
  unfolding parse_iso8601_violations[OF assms] by (cases "violations m") auto

lemma parse_iso8601_InrD:
  assumes "parse_iso8601 s = Inr ts"
  shows "\<exists>m. datetime_regex s = Some m \<and> violations m = [] \<and> ts = timestamp_of m"
proof (cases "datetime_regex s")
  case None
  with assms show ?thesis by (simp add: parse_iso8601_def)
next
  case (Some m)
  with assms parse_iso8601_Inr_iff[OF Some] show ?thesis by simp
qed

lemma parse_iso8601_InlD:
  assumes "datetime_regex s = Some m" "parse_iso8601 s = Inl e"
  shows "violations m \<noteq> [] \<and> e = hd (violations m)"
  using assms(2) unfolding parse_iso8601_violations[OF assms(1)]
  by (cases "violations m") auto

lemma parse_iso8601_first_violation:
  assumes "datetime_regex s = Some m" "violations m \<noteq> []"
  shows "parse_iso8601 s = Inl (hd (violations m))"
  using assms(2) unfolding parse_iso8601_violations[OF assms(1)]
  by (cases "violations m") auto

lemma subseq_violation_append:
  "subseq xs ys \<Longrightarrow> subseq (violation c e @ xs) (e # ys)"
  by (auto simp: violation_def intro: list_emb_Cons)

lemma subseq_violation_last: "subseq (violation c e) [e]"
  by (simp add: violation_def)

lemma violations_order: "subseq (violations m) check_order"
  unfolding violations_def range_violations_def field_violations_def check_order_def append_assoc
  by (intro subseq_violation_append subseq_violation_last)

lemma violations_kinds:
  assumes "e \<in> set (violations m)"
  shows "e \<in> set check_order"
  using violations_order[of m] assms by (auto elim: list_emb_set)

section \<open>The claims\<close>

text \<open>
  Claim C1. For every year from 1583 to 9999, every month from 1 to 12 and every day
  within the calendar bounds of that year and month, the date-only text \<open>YYYY-MM-DD\<close>
  (four, two and two digits) parses successfully; the timestamp has that year, month and
  day, its hour, minute, second and microsecond are zero, and it carries no UTC offset.
\<close>

theorem date_only_parses:
  assumes "1583 \<le> y" "y \<le> 9999" "1 \<le> mo" "mo \<le> 12" "1 \<le> d"
    "int d \<le> calendar_days (int y) (int mo)"
  shows "parse_iso8601 (zero_padded 4 y @ ''-'' @ zero_padded 2 mo @ ''-'' @ zero_padded 2 d)
       = Inr \<lparr> dt_year = int y, dt_month = int mo, dt_day = int d, dt_hour = 0,
               dt_minute = 0, dt_second = 0, dt_microsecond = 0, dt_tzinfo = None \<rparr>"
proof -
  define m where "m = no_groups\<lparr>g_hyphen := ''-'', g_month := zero_padded 2 mo,
    g_day := zero_padded 2 d, g_year := zero_padded 4 y\<rparr>"
  have re: "datetime_regex (zero_padded 4 y @ ''-'' @ zero_padded 2 mo @ ''-'' @ zero_padded 2 d)
            = Some m"
    unfolding m_def by (rule datetime_regex_date_only) (rule zero_padded_digit_text)+
  have "calendar_days (int y) (int mo) \<le> 31" by (simp add: calendar_days_def)
  with assms(6) have d31: "d \<le> 31" by simp
  have vals: "decimal_value (zero_padded 4 y) = int y" "decimal_value (zero_padded 2 mo) = int mo"
    "decimal_value (zero_padded 2 d) = int d"
    using assms(2,4) d31 by (simp_all add: decimal_value_zero_padded)
  have grp: "g_year m = zero_padded 4 y" "g_month m = zero_padded 2 mo"
    "g_day m = zero_padded 2 d" "g_hyphen m = ''-''" "g_hour m = None" "g_colon m = None"
    "g_minute m = None" "g_second m = None" "g_subsecond m = None" "g_timezone m = None"
    by (simp_all add: m_def no_groups_def)
  have "violations m = []"
    using assms
    by (simp add: violations_def range_violations_def field_violations_def day_in_range_def
          violation_def grp vals inconsistent_def opt_value_def signed_timezone_def)
  moreover have "timestamp_of m = \<lparr> dt_year = int y, dt_month = int mo, dt_day = int d,
      dt_hour = 0, dt_minute = 0, dt_second = 0, dt_microsecond = 0, dt_tzinfo = None \<rparr>"
    by (simp add: timestamp_of_def grp vals opt_value_def microsecond_of_def offset_minutes_def)
  ultimately show ?thesis unfolding parse_iso8601_violations[OF re] by simp
qed

theorem date_only_parses_witness:
  "parse_iso8601 ''1583-01-01''
   = Inr \<lparr> dt_year = 1583, dt_month = 1, dt_day = 1, dt_hour = 0,
           dt_minute = 0, dt_second = 0, dt_microsecond = 0, dt_tzinfo = None \<rparr>"
proof -
  have eq: "zero_padded 4 1583 @ ''-'' @ zero_padded 2 1 @ ''-'' @ zero_padded 2 1 = ''1583-01-01''"
    by code_simp
  have "parse_iso8601 (zero_padded 4 1583 @ ''-'' @ zero_padded 2 1 @ ''-'' @ zero_padded 2 1)
   = Inr \<lparr> dt_year = 1583, dt_month = 1, dt_day = 1, dt_hour = 0,
           dt_minute = 0, dt_second = 0, dt_microsecond = 0, dt_tzinfo = None \<rparr>"
    using date_only_parses[of 1583 1 1] by (simp add: calendar_days_def)
  then show ?thesis by (simp only: eq)
qed

lemma regex_2019_1223:
  "datetime_regex ''2019-10-01T1223'' = Some \<lparr> g_year = ''2019'', g_hyphen = ''-'',
     g_month = ''10'', g_day = ''01'', g_hour = Some ''12'', g_colon = Some [],
     g_minute = Some ''23'', g_second = None, g_subsecond = None, g_timezone = None,
     g_sign = None, g_tz_hour = None, g_tz_minute = None \<rparr>"
  by code_simp

text \<open>
  Claim C2. Whenever the time part has a minute and its separator style (colon or none)
  differs from the separator style of the date (hyphen or none), parsing fails with
  \<open>InconsistentFormat\<close>, with no other error and never with success; so do
  \<open>2019-10-01T1223\<close> and \<open>20191001T12:23\<close>.
\<close>

theorem mixed_truncation_fails:
  "(datetime_regex s = Some m \<longrightarrow> g_minute m \<noteq> None \<longrightarrow>
      (g_hyphen m = ''-'') \<noteq> (g_colon m = Some '':'') \<longrightarrow>
      parse_iso8601 s = Inl InconsistentFormat)
   \<and> parse_iso8601 ''2019-10-01T1223'' = Inl InconsistentFormat
   \<and> parse_iso8601 ''20191001T12:23'' = Inl InconsistentFormat"
proof (intro conjI impI)
  assume re: "datetime_regex s = Some m" and mi: "g_minute m \<noteq> None"
    and diff: "(g_hyphen m = ''-'') \<noteq> (g_colon m = Some '':'')"
  from datetime_regex_shape[OF re] have "time_shape m" "g_hyphen m = [] \<or> g_hyphen m = ''-''"
    by simp_all
  with mi have "g_colon m = Some [] \<or> g_colon m = Some '':''" by (auto simp: time_shape_def)
  with diff \<open>g_hyphen m = [] \<or> g_hyphen m = ''-''\<close>
  have "inconsistent (g_hyphen m) (g_colon m)" by (auto simp: inconsistent_def)
  then show "parse_iso8601 s = Inl InconsistentFormat"
    by (simp add: parse_iso8601_chain[OF re])
next
  show "parse_iso8601 ''2019-10-01T1223'' = Inl InconsistentFormat" by code_simp
next
  show "parse_iso8601 ''20191001T12:23'' = Inl InconsistentFormat" by code_simp
qed

theorem mixed_truncation_fails_witness:
  "datetime_regex ''2019-10-01T1223'' \<noteq> None
   \<and> parse_iso8601 ''2019-10-01T1223'' = Inl InconsistentFormat"
  using mixed_truncation_fails[of "''2019-10-01T1223''" "\<lparr> g_year = ''2019'', g_hyphen = ''-'',
     g_month = ''10'', g_day = ''01'', g_hour = Some ''12'', g_colon = Some [],
     g_minute = Some ''23'', g_second = None, g_subsecond = None, g_timezone = None,
     g_sign = None, g_tz_hour = None, g_tz_minute = None \<rparr>"]
  by (simp add: regex_2019_1223)

text \<open>
  Claim C10. When the time part is the hour alone, no time separator is captured and the
  truncation check does not apply: parsing never fails with \<open>InconsistentFormat\<close> then,
  and \<open>2019-10-01T12\<close> and \<open>20191001T12\<close> both parse successfully. The check fires only
  for a match that has a minute.
\<close>

theorem hour_only_skips_truncation_check:
  "(datetime_regex s = Some m \<longrightarrow> g_minute m = None \<longrightarrow>
      g_colon m = None \<and> parse_iso8601 s \<noteq> Inl InconsistentFormat)
   \<and> (parse_iso8601 s = Inl InconsistentFormat \<longrightarrow>
        (\<exists>m. datetime_regex s = Some m \<and> g_minute m \<noteq> None))
   \<and> parse_iso8601 ''2019-10-01T12''
       = Inr \<lparr> dt_year = 2019, dt_month = 10, dt_day = 1, dt_hour = 12, dt_minute = 0,
               dt_second = 0, dt_microsecond = 0, dt_tzinfo = None \<rparr>
   \<and> parse_iso8601 ''20191001T12''
       = Inr \<lparr> dt_year = 2019, dt_month = 10, dt_day = 1, dt_hour = 12, dt_minute = 0,
               dt_second = 0, dt_microsecond = 0, dt_tzinfo = None \<rparr>"
proof -
  have skip: "g_colon m = None \<and> parse_iso8601 s \<noteq> Inl InconsistentFormat"
    if re: "datetime_regex s = Some m" and mi: "g_minute m = None" for s m
  proof -
    from datetime_regex_shape[OF re] mi have c: "g_colon m = None" by (simp add: time_shape_def)
    then have "\<not> inconsistent (g_hyphen m) (g_colon m)" by (simp add: inconsistent_def)
    then have "parse_iso8601 s \<noteq> Inl InconsistentFormat"
      unfolding parse_iso8601_chain[OF re] by simp
    with c show ?thesis by simp
  qed
  have fires: "\<exists>m. datetime_regex s = Some m \<and> g_minute m \<noteq> None"
    if "parse_iso8601 s = Inl InconsistentFormat"
  proof (cases "datetime_regex s")
    case None
    with that show ?thesis by (simp add: parse_iso8601_def)
  next
    case (Some m)
    with skip[OF Some] that show ?thesis by auto
  qed
  have e1: "parse_iso8601 ''2019-10-01T12''
       = Inr \<lparr> dt_year = 2019, dt_month = 10, dt_day = 1, dt_hour = 12, dt_minute = 0,
               dt_second = 0, dt_microsecond = 0, dt_tzinfo = None \<rparr>" by code_simp
  have e2: "parse_iso8601 ''20191001T12''
       = Inr \<lparr> dt_year = 2019, dt_month = 10, dt_day = 1, dt_hour = 12, dt_minute = 0,
               dt_second = 0, dt_microsecond = 0, dt_tzinfo = None \<rparr>" by code_simp
  from skip fires e1 e2 show ?thesis by blast
qed

lemma regex_2019_hour_only:
  "datetime_regex ''2019-10-01T12'' = Some \<lparr> g_year = ''2019'', g_hyphen = ''-'',
     g_month = ''10'', g_day = ''01'', g_hour = Some ''12'', g_colon = None,
     g_minute = None, g_second = None, g_subsecond = None, g_timezone = None,
     g_sign = None, g_tz_hour = None, g_tz_minute = None \<rparr>"
  by code_simp

theorem hour_only_skips_truncation_check_witness:
  "datetime_regex ''2019-10-01T12'' \<noteq> None
   \<and> parse_iso8601 ''2019-10-01T12'' \<noteq> Inl InconsistentFormat
   \<and> parse_iso8601 ''2019-10-01T1223'' = Inl InconsistentFormat
   \<and> (\<exists>m. datetime_regex ''2019-10-01T1223'' = Some m \<and> g_minute m \<noteq> None)"
proof -
  have a: "parse_iso8601 ''2019-10-01T1223'' = Inl InconsistentFormat" by code_simp
  from hour_only_skips_truncation_check[of "''2019-10-01T12''" "\<lparr> g_year = ''2019'',
     g_hyphen = ''-'', g_month = ''10'', g_day = ''01'', g_hour = Some ''12'', g_colon = None,
     g_minute = None, g_second = None, g_subsecond = None, g_timezone = None,
     g_sign = None, g_tz_hour = None, g_tz_minute = None \<rparr>"]
  have b: "parse_iso8601 ''2019-10-01T12'' \<noteq> Inl InconsistentFormat"
    by (simp add: regex_2019_hour_only)
  from hour_only_skips_truncation_check[of "''2019-10-01T1223''"] a
  have c: "\<exists>m. datetime_regex ''2019-10-01T1223'' = Some m \<and> g_minute m \<noteq> None" by blast
  from a b c show ?thesis by (simp add: regex_2019_hour_only)
qed

text \<open>
  Claim C3, as the specification states it: the day must lie between 1 and the maximum
  day of the month, or the parse fails with \<open>DayOutOfRange\<close>. The input
  \<open>2019-02-30T25\<close> is well-formed and its day 30 exceeds the 28 days of February 2019,
  and the error is \<open>FieldOutOfRange\<close> for the hour; the day of \<open>1900-02-29T1223\<close>
  exceeds the 28 days of February 1900, and the error is \<open>InconsistentFormat\<close>. The day
  check is the last one, and an earlier violation is reported in its place.
\<close>

theorem day_error_preempted:
  "map_option g_day (datetime_regex ''2019-02-30T25'') = Some ''30''
   \<and> calendar_days 2019 2 = 28
   \<and> parse_iso8601 ''2019-02-30T25'' = Inl (FieldOutOfRange Hour)
   \<and> parse_iso8601 ''2019-02-30T25'' \<noteq> Inl DayOutOfRange
   \<and> map_option g_day (datetime_regex ''1900-02-29T1223'') = Some ''29''
   \<and> calendar_days 1900 2 = 28
   \<and> parse_iso8601 ''1900-02-29T1223'' = Inl InconsistentFormat
   \<and> parse_iso8601 ''1900-02-29T1223'' \<noteq> Inl DayOutOfRange"
  by code_simp

text \<open>
  Claim C3, amended. The day-of-month check uses the proleptic Gregorian leap-year rule:
  February has 29 days exactly in the years that are divisible by 4 and are not century
  years that 400 does not divide. When the truncation check and the range checks of year,
  month, hour, minute, second and timezone have passed, a day outside of 1 to the maximum
  day of the month fails with \<open>DayOutOfRange\<close>, and a day inside parses; every timestamp
  that the parser returns has its day within these bounds. So \<open>2000-02-29\<close> and
  \<open>2004-02-29\<close> parse, and \<open>1900-02-29\<close> and \<open>2004-02-30\<close> fail with \<open>DayOutOfRange\<close>.
\<close>

theorem day_check_gregorian:
  "days_in_february y = (if gregorian_leap y then 29 else 28)
   \<and> (1 \<le> mo \<and> mo \<le> 12 \<longrightarrow>
        lookup (days_in_month (days_in_february y)) mo = Inr (calendar_days y mo))
   \<and> (datetime_regex s = Some m \<longrightarrow> \<not> inconsistent (g_hyphen m) (g_colon m) \<longrightarrow>
        field_violations m = [] \<longrightarrow>
        parse_iso8601 s = (if day_in_range m then Inr (timestamp_of m) else Inl DayOutOfRange))
   \<and> (parse_iso8601 s = Inr ts \<longrightarrow>
        1 \<le> dt_day ts \<and> dt_day ts \<le> calendar_days (dt_year ts) (dt_month ts))
   \<and> parse_iso8601 ''2000-02-29''
       = Inr \<lparr> dt_year = 2000, dt_month = 2, dt_day = 29, dt_hour = 0, dt_minute = 0,
               dt_second = 0, dt_microsecond = 0, dt_tzinfo = None \<rparr>
   \<and> parse_iso8601 ''2004-02-29''
       = Inr \<lparr> dt_year = 2004, dt_month = 2, dt_day = 29, dt_hour = 0, dt_minute = 0,
               dt_second = 0, dt_microsecond = 0, dt_tzinfo = None \<rparr>
   \<and> parse_iso8601 ''1900-02-29'' = Inl DayOutOfRange
   \<and> parse_iso8601 ''2004-02-30'' = Inl DayOutOfRange"
proof (intro conjI impI)
  show "days_in_february y = (if gregorian_leap y then 29 else 28)"
    by (rule days_in_february_leap)
next
  assume "1 \<le> mo \<and> mo \<le> 12"
  then show "lookup (days_in_month (days_in_february y)) mo = Inr (calendar_days y mo)"
    by (simp add: lookup_days_in_month)
next
  assume re: "datetime_regex s = Some m" and c: "\<not> inconsistent (g_hyphen m) (g_colon m)"
    and f: "field_violations m = []"
  have "violations m = violation (\<not> day_in_range m) DayOutOfRange"
    by (simp add: violations_def range_violations_def c f)
  then show "parse_iso8601 s = (if day_in_range m then Inr (timestamp_of m) else Inl DayOutOfRange)"
    unfolding parse_iso8601_violations[OF re] by (simp add: violation_def)
next
  assume "parse_iso8601 s = Inr ts"
  from parse_iso8601_InrD[OF this] obtain m' where v: "violations m' = []"
    and ts: "ts = timestamp_of m'" by blast
  from v have "day_in_range m'" by (simp add: violations_def range_violations_def)
  then show "1 \<le> dt_day ts" "dt_day ts \<le> calendar_days (dt_year ts) (dt_month ts)"
    by (simp_all add: ts timestamp_of_def day_in_range_def)
next
  show "parse_iso8601 ''2000-02-29''
       = Inr \<lparr> dt_year = 2000, dt_month = 2, dt_day = 29, dt_hour = 0, dt_minute = 0,
               dt_second = 0, dt_microsecond = 0, dt_tzinfo = None \<rparr>" by code_simp
next
  show "parse_iso8601 ''2004-02-29''
       = Inr \<lparr> dt_year = 2004, dt_month = 2, dt_day = 29, dt_hour = 0, dt_minute = 0,
               dt_second = 0, dt_microsecond = 0, dt_tzinfo = None \<rparr>" by code_simp
next
  show "parse_iso8601 ''1900-02-29'' = Inl DayOutOfRange" by code_simp
next
  show "parse_iso8601 ''2004-02-30'' = Inl DayOutOfRange" by code_simp
qed

lemma regex_1900_02_29:
  "datetime_regex ''1900-02-29'' = Some \<lparr> g_year = ''1900'', g_hyphen = ''-'',
     g_month = ''02'', g_day = ''29'', g_hour = None, g_colon = None,
     g_minute = None, g_second = None, g_subsecond = None, g_timezone = None,
     g_sign = None, g_tz_hour = None, g_tz_minute = None \<rparr>"
  by code_simp

theorem day_check_gregorian_witness:
  "lookup (days_in_month (days_in_february 1900)) 2 = Inr 28
   \<and> parse_iso8601 ''1900-02-29'' = Inl DayOutOfRange
   \<and> 1 \<le> dt_day \<lparr> dt_year = 2000, dt_month = 2, dt_day = 29, dt_hour = 0, dt_minute = 0,
               dt_second = 0, dt_microsecond = 0, dt_tzinfo = None \<rparr>"
proof -
  define m where "m = \<lparr> g_year = ''1900'', g_hyphen = ''-'',
     g_month = ''02'', g_day = ''29'', g_hour = None, g_colon = None,
     g_minute = None, g_second = None, g_subsecond = None, g_timezone = None,
     g_sign = None, g_tz_hour = None, g_tz_minute = None \<rparr>"
  define ts where "ts = \<lparr> dt_year = 2000, dt_month = 2, dt_day = 29, dt_hour = 0,
     dt_minute = 0, dt_second = 0, dt_microsecond = 0, dt_tzinfo = None \<rparr>"
  have re: "datetime_regex ''1900-02-29'' = Some m" unfolding m_def by (rule regex_1900_02_29)
  have c: "\<not> inconsistent (g_hyphen m) (g_colon m)" by (simp add: m_def inconsistent_def)
  have f: "field_violations m = []"
    by (simp add: m_def field_violations_def opt_value_def signed_timezone_def decimal_value_def
          digit_val_def)
  have d: "\<not> day_in_range m"
    by (simp add: m_def day_in_range_def calendar_days_def gregorian_leap_def decimal_value_def
          digit_val_def)
  note inst = day_check_gregorian[of 1900 2 "''1900-02-29''" m ts]
  from inst[THEN conjunct2, THEN conjunct1]
  have a: "lookup (days_in_month (days_in_february 1900)) 2 = Inr (calendar_days 1900 2)"
    by simp
  from inst[THEN conjunct2, THEN conjunct2, THEN conjunct1] re c f d
  have b: "parse_iso8601 ''1900-02-29'' = Inl DayOutOfRange" by simp
  have p: "parse_iso8601 ''2000-02-29'' = Inr ts" unfolding ts_def by code_simp
  from day_check_gregorian[of 1900 2 "''2000-02-29''" m ts,
      THEN conjunct2, THEN conjunct2, THEN conjunct2, THEN conjunct1] p
  have "1 \<le> dt_day ts" by simp
  with a b show ?thesis by (simp add: calendar_days_def gregorian_leap_def ts_def)
qed

text \<open>
  Claim C4. On every successful parse of an input with a signed timezone, the sign applies
  to the hour and to the minute of the offset alike, which gives one signed number of
  minutes: \<open>1905-12-22T23:59+12:01\<close> has the offset +721 and \<open>1912-06-23T00-0308\<close> the
  offset -188. The timezone \<open>Z\<close> gives the offset zero. Without a timezone the result
  carries no offset, which is not the same as the offset zero.
\<close>

theorem timezone_offset:
  "(datetime_regex s = Some m \<longrightarrow> parse_iso8601 s = Inr ts \<longrightarrow>
      (signed_timezone m \<longrightarrow>
         (g_sign m = Some ''+'' \<or> g_sign m = Some ''-'')
         \<and> dt_tzinfo ts = Some ((if g_sign m = Some ''+'' then 1 else - 1)
                                * (60 * opt_value (g_tz_hour m) + opt_value (g_tz_minute m))))
      \<and> (g_timezone m = Some ''Z'' \<longrightarrow> dt_tzinfo ts = Some 0)
      \<and> (g_timezone m = None \<longrightarrow> dt_tzinfo ts = None))
   \<and> parse_iso8601 ''1905-12-22T23:59+12:01''
       = Inr \<lparr> dt_year = 1905, dt_month = 12, dt_day = 22, dt_hour = 23, dt_minute = 59,
               dt_second = 0, dt_microsecond = 0, dt_tzinfo = Some 721 \<rparr>
   \<and> parse_iso8601 ''1912-06-23T00-0308''
       = Inr \<lparr> dt_year = 1912, dt_month = 6, dt_day = 23, dt_hour = 0, dt_minute = 0,
               dt_second = 0, dt_microsecond = 0, dt_tzinfo = Some (- 188) \<rparr>
   \<and> parse_iso8601 ''19100622T1111Z''
       = Inr \<lparr> dt_year = 1910, dt_month = 6, dt_day = 22, dt_hour = 11, dt_minute = 11,
               dt_second = 0, dt_microsecond = 0, dt_tzinfo = Some 0 \<rparr>
   \<and> parse_iso8601 ''19100622T1111''
       = Inr \<lparr> dt_year = 1910, dt_month = 6, dt_day = 22, dt_hour = 11, dt_minute = 11,
               dt_second = 0, dt_microsecond = 0, dt_tzinfo = None \<rparr>
   \<and> parse_iso8601 ''19100622T1111Z'' \<noteq> parse_iso8601 ''19100622T1111''"
proof (intro conjI impI)
  assume re: "datetime_regex s = Some m" and ok: "parse_iso8601 s = Inr ts"
  from ok have ts: "dt_tzinfo ts = offset_minutes m"
    by (simp add: parse_iso8601_Inr_iff[OF re] timestamp_of_def)
  from datetime_regex_shape[OF re] have tz: "tz_shape m" by simp
  {
    assume "signed_timezone m"
    with tz show "g_sign m = Some ''+'' \<or> g_sign m = Some ''-''"
      by (auto simp: tz_shape_def signed_timezone_def)
  next
    assume "signed_timezone m"
    then show "dt_tzinfo ts = Some ((if g_sign m = Some ''+'' then 1 else - 1)
                 * (60 * opt_value (g_tz_hour m) + opt_value (g_tz_minute m)))"
      by (simp add: ts offset_minutes_def signed_timezone_def)
  next
    assume "g_timezone m = Some ''Z''"
    then show "dt_tzinfo ts = Some 0" by (simp add: ts offset_minutes_def)
  next
    assume "g_timezone m = None"
    then show "dt_tzinfo ts = None" by (simp add: ts offset_minutes_def)
  }
next
  show "parse_iso8601 ''1905-12-22T23:59+12:01''
       = Inr \<lparr> dt_year = 1905, dt_month = 12, dt_day = 22, dt_hour = 23, dt_minute = 59,
               dt_second = 0, dt_microsecond = 0, dt_tzinfo = Some 721 \<rparr>" by code_simp
next
  show "parse_iso8601 ''1912-06-23T00-0308''
       = Inr \<lparr> dt_year = 1912, dt_month = 6, dt_day = 23, dt_hour = 0, dt_minute = 0,
               dt_second = 0, dt_microsecond = 0, dt_tzinfo = Some (- 188) \<rparr>" by code_simp
next
  show "parse_iso8601 ''19100622T1111Z''
       = Inr \<lparr> dt_year = 1910, dt_month = 6, dt_day = 22, dt_hour = 11, dt_minute = 11,
               dt_second = 0, dt_microsecond = 0, dt_tzinfo = Some 0 \<rparr>" by code_simp
next
  show "parse_iso8601 ''19100622T1111''
       = Inr \<lparr> dt_year = 1910, dt_month = 6, dt_day = 22, dt_hour = 11, dt_minute = 11,
               dt_second = 0, dt_microsecond = 0, dt_tzinfo = None \<rparr>" by code_simp
next
  show "parse_iso8601 ''19100622T1111Z'' \<noteq> parse_iso8601 ''19100622T1111''" by code_simp
qed

lemma regex_1912_offset:
  "datetime_regex ''1912-06-23T00-0308'' = Some \<lparr> g_year = ''1912'', g_hyphen = ''-'',
     g_month = ''06'', g_day = ''23'', g_hour = Some ''00'', g_colon = None,
     g_minute = None, g_second = None, g_subsecond = None, g_timezone = Some ''-0308'',
     g_sign = Some ''-'', g_tz_hour = Some ''03'', g_tz_minute = Some ''08'' \<rparr>"
  by code_simp

theorem timezone_offset_witness:
  "datetime_regex ''1912-06-23T00-0308'' \<noteq> None
   \<and> (\<exists>ts. parse_iso8601 ''1912-06-23T00-0308'' = Inr ts \<and> dt_tzinfo ts = Some (- 188))"
proof -
  define m where "m = \<lparr> g_year = ''1912'', g_hyphen = ''-'',
     g_month = ''06'', g_day = ''23'', g_hour = Some ''00'', g_colon = None,
     g_minute = None, g_second = None, g_subsecond = None, g_timezone = Some ''-0308'',
     g_sign = Some ''-'', g_tz_hour = Some ''03'', g_tz_minute = Some ''08'' \<rparr>"
  define ts where "ts = \<lparr> dt_year = 1912, dt_month = 6, dt_day = 23, dt_hour = 0,
     dt_minute = 0, dt_second = 0, dt_microsecond = 0, dt_tzinfo = Some (- 188) \<rparr>"
  have re: "datetime_regex ''1912-06-23T00-0308'' = Some m"
    unfolding m_def by (rule regex_1912_offset)
  have ok: "parse_iso8601 ''1912-06-23T00-0308'' = Inr ts" unfolding ts_def by code_simp
  have sg: "signed_timezone m" by (simp add: m_def signed_timezone_def)
  from timezone_offset[of "''1912-06-23T00-0308''" m ts, THEN conjunct1] re ok sg
  have "dt_tzinfo ts = Some ((if g_sign m = Some ''+'' then 1 else - 1)
          * (60 * opt_value (g_tz_hour m) + opt_value (g_tz_minute m)))" by blast
  then have "dt_tzinfo ts = Some (- 188)"
    by (simp add: m_def opt_value_def decimal_value_def digit_val_def)
  with re ok show ?thesis by auto
qed

text \<open>
  Claim C5. The microsecond of the result is the number that the digits of the fraction,
  padded with zeros on the right to six digits, denote; it is zero without a fraction.
  The code computes it in binary floating point, \<open>int(float("0." + digits) * 1000000)\<close>,
  and cuts the product off. For the digits \<open>5\<close> and \<open>054\<close> that gives 500000 and 54000.
  For the digits \<open>0157\<close> the product lies just below 15700 and the result is 15699.
\<close>

theorem microsecond_float_truncation:
  "parse_iso8601 ''1996-02-10T08:17:17.0157''
     = Inr \<lparr> dt_year = 1996, dt_month = 2, dt_day = 10, dt_hour = 8, dt_minute = 17,
             dt_second = 17, dt_microsecond = 15699, dt_tzinfo = None \<rparr>
   \<and> padded_microsecond ''0157'' = 15700
   \<and> microsecond_of (Some ''5'') = 500000 \<and> padded_microsecond ''5'' = 500000
   \<and> microsecond_of (Some ''054'') = 54000 \<and> padded_microsecond ''054'' = 54000
   \<and> microsecond_of None = 0"
  by code_simp

text \<open>
  Claim C6. Every text that deviates from the grammar, trailing content such as a newline
  included, fails with \<open>NoMatch\<close>. The empty text, a blank, a one-digit month and a
  trailing blank do fail so. The pattern ends with \<open>$\<close>, which also matches just before
  a newline that ends the text: a valid timestamp followed by one newline parses.
\<close>

theorem trailing_newline_accepted:
  "parse_iso8601 (''2019-10-01'' @ [CHR 0x0A])
     = Inr \<lparr> dt_year = 2019, dt_month = 10, dt_day = 1, dt_hour = 0, dt_minute = 0,
             dt_second = 0, dt_microsecond = 0, dt_tzinfo = None \<rparr>
   \<and> parse_iso8601 [] = Inl NoMatch
   \<and> parse_iso8601 '' '' = Inl NoMatch
   \<and> parse_iso8601 ''2345-2-10'' = Inl NoMatch
   \<and> parse_iso8601 ''2019-10-01 '' = Inl NoMatch
   \<and> parse_iso8601 (''2019-10-01'' @ [CHR 0x0A, CHR 0x0A]) = Inl NoMatch"
  by code_simp

lemma day_violation_only:
  assumes "hd (violations m) = DayOutOfRange" "violations m \<noteq> []"
  shows "violations m = [DayOutOfRange]"
proof -
  define A where "A = violation (inconsistent (g_hyphen m) (g_colon m)) InconsistentFormat
    @ field_violations m"
  have v: "violations m = A @ violation (\<not> day_in_range m) DayOutOfRange"
    by (simp add: violations_def range_violations_def A_def)
  have notin: "DayOutOfRange \<notin> set A"
    by (simp add: A_def field_violations_def violation_def)
  have "A = []"
  proof (rule ccontr)
    assume "A \<noteq> []"
    then have "hd (violations m) \<in> set A" by (simp add: v)
    with assms(1) notin show False by simp
  qed
  with assms(2) show ?thesis by (simp add: v violation_def split: if_splits)
qed

lemma violations_2019_13_32:
  "violations \<lparr> g_year = ''2019'', g_hyphen = ''-'', g_month = ''13'', g_day = ''32'',
     g_hour = None, g_colon = None, g_minute = None, g_second = None, g_subsecond = None,
     g_timezone = None, g_sign = None, g_tz_hour = None, g_tz_minute = None \<rparr>
   = [FieldOutOfRange Month, DayOutOfRange]"
  by code_simp

lemma regex_2019_13_32:
  "datetime_regex ''2019-13-32'' = Some \<lparr> g_year = ''2019'', g_hyphen = ''-'',
     g_month = ''13'', g_day = ''32'', g_hour = None, g_colon = None,
     g_minute = None, g_second = None, g_subsecond = None, g_timezone = None,
     g_sign = None, g_tz_hour = None, g_tz_minute = None \<rparr>"
  by code_simp

text \<open>
  Claim C7. After a successful match the checks run in the fixed order truncation
  consistency, year, month, hour, minute, second, timezone hour, timezone minute,
  day of month. Of the violations of an input exactly one is reported, the first in that
  order, and the day-of-month check is last: \<open>DayOutOfRange\<close> is reported only when
  nothing else is violated. An invalid month with an invalid day reports the month, an
  invalid hour with an invalid day reports the hour.
\<close>

theorem first_violation_reported:
  "subseq (violations m) check_order
   \<and> (datetime_regex s = Some m \<longrightarrow> violations m \<noteq> [] \<longrightarrow>
        parse_iso8601 s = Inl (hd (violations m)))
   \<and> (datetime_regex s = Some m \<longrightarrow> parse_iso8601 s = Inl DayOutOfRange \<longrightarrow>
        violations m = [DayOutOfRange])
   \<and> parse_iso8601 ''2019-13-32'' = Inl (FieldOutOfRange Month)
   \<and> parse_iso8601 ''2019-01-32T25'' = Inl (FieldOutOfRange Hour)
   \<and> parse_iso8601 ''2019-13-66T25:62:88'' = Inl (FieldOutOfRange Month)
   \<and> parse_iso8601 ''0000-13-01T2561'' = Inl InconsistentFormat"
proof (intro conjI impI)
  show "subseq (violations m) check_order" by (rule violations_order)
next
  assume "datetime_regex s = Some m" "violations m \<noteq> []"
  then show "parse_iso8601 s = Inl (hd (violations m))" by (rule parse_iso8601_first_violation)
next
  assume re: "datetime_regex s = Some m" and "parse_iso8601 s = Inl DayOutOfRange"
  from parse_iso8601_InlD[OF this] show "violations m = [DayOutOfRange]"
    by (intro day_violation_only) simp_all
next
  show "parse_iso8601 ''2019-13-32'' = Inl (FieldOutOfRange Month)" by code_simp
next
  show "parse_iso8601 ''2019-01-32T25'' = Inl (FieldOutOfRange Hour)" by code_simp
next
  show "parse_iso8601 ''2019-13-66T25:62:88'' = Inl (FieldOutOfRange Month)" by code_simp
next
  show "parse_iso8601 ''0000-13-01T2561'' = Inl InconsistentFormat" by code_simp
qed

theorem first_violation_reported_witness:
  "datetime_regex ''2019-13-32'' \<noteq> None
   \<and> parse_iso8601 ''2019-13-32'' = Inl (FieldOutOfRange Month)
   \<and> parse_iso8601 ''2019-10-32'' = Inl DayOutOfRange"
proof -
  define m where "m = \<lparr> g_year = ''2019'', g_hyphen = ''-'', g_month = ''13'', g_day = ''32'',
     g_hour = None, g_colon = None, g_minute = None, g_second = None, g_subsecond = None,
     g_timezone = None, g_sign = None, g_tz_hour = None, g_tz_minute = None \<rparr>"
  have re: "datetime_regex ''2019-13-32'' = Some m" unfolding m_def by (rule regex_2019_13_32)
  have v: "violations m = [FieldOutOfRange Month, DayOutOfRange]"
    unfolding m_def by (rule violations_2019_13_32)
  from first_violation_reported[of m "''2019-13-32''", THEN conjunct2, THEN conjunct1] re v
  have a: "parse_iso8601 ''2019-13-32'' = Inl (FieldOutOfRange Month)" by simp
  have d: "parse_iso8601 ''2019-10-32'' = Inl DayOutOfRange" by code_simp
  have "\<exists>m'. datetime_regex ''2019-10-32'' = Some m'"
    using d by (cases "datetime_regex ''2019-10-32''") (simp_all add: parse_iso8601_def)
  then obtain m' where re': "datetime_regex ''2019-10-32'' = Some m'" by blast
  from first_violation_reported[of m' "''2019-10-32''",
      THEN conjunct2, THEN conjunct2, THEN conjunct1] re' d
  have "violations m' = [DayOutOfRange]" by simp
  with a d re show ?thesis by simp
qed

lemma regex_2019_2460:
  "datetime_regex ''2019-10-01T2460'' = Some \<lparr> g_year = ''2019'', g_hyphen = ''-'',
     g_month = ''10'', g_day = ''01'', g_hour = Some ''24'', g_colon = Some [],
     g_minute = Some ''60'', g_second = None, g_subsecond = None, g_timezone = None,
     g_sign = None, g_tz_hour = None, g_tz_minute = None \<rparr>"
  by code_simp

lemma regex_2019_13_T24:
  "datetime_regex ''2019-13-01T24'' = Some \<lparr> g_year = ''2019'', g_hyphen = ''-'',
     g_month = ''13'', g_day = ''01'', g_hour = Some ''24'', g_colon = None,
     g_minute = None, g_second = None, g_subsecond = None, g_timezone = None,
     g_sign = None, g_tz_hour = None, g_tz_minute = None \<rparr>"
  by code_simp

text \<open>
  Claim C8, as the specification states it: every well-formed input with a numeric field
  out of range reports the range error of that field. The input \<open>2019-10-01T2460\<close> is
  well-formed, its hour is 24 and its minute is 60, and the error is
  \<open>InconsistentFormat\<close>, which is no range error: the truncation check runs first.
\<close>

theorem range_error_preempted:
  "map_option g_hour (datetime_regex ''2019-10-01T2460'') = Some (Some ''24'')
   \<and> map_option g_minute (datetime_regex ''2019-10-01T2460'') = Some (Some ''60'')
   \<and> parse_iso8601 ''2019-10-01T2460'' = Inl InconsistentFormat
   \<and> parse_iso8601 ''2019-10-01T2460'' \<noteq> Inl (FieldOutOfRange Hour)
   \<and> parse_iso8601 ''2019-10-01T2460'' \<noteq> Inl (FieldOutOfRange Minute)"
  by code_simp

text \<open>
  Claim C8, amended. A well-formed input with a numeric field out of range never parses.
  It fails with \<open>InconsistentFormat\<close> if date and time differ in truncation style, and
  otherwise with the range error of the first field out of range in the order year, month,
  hour, minute, second, timezone hour, timezone minute, day. An input whose only violation
  is hour 24, minute 60, second 60, month 0 or 13, timezone hour 24 or timezone minute 60
  fails with \<open>FieldOutOfRange\<close> for that field, with day 0 or 32 it fails with
  \<open>DayOutOfRange\<close>, and with year 0000 it fails with \<open>FieldOutOfRange\<close> for the year.
\<close>

theorem range_errors:
  "(datetime_regex s = Some m \<longrightarrow> range_violations m \<noteq> [] \<longrightarrow>
      parse_iso8601 s = (if inconsistent (g_hyphen m) (g_colon m) then Inl InconsistentFormat
                         else Inl (hd (range_violations m))))
   \<and> parse_iso8601 ''2019-10-01T24'' = Inl (FieldOutOfRange Hour)
   \<and> parse_iso8601 ''2019-10-01T12:60'' = Inl (FieldOutOfRange Minute)
   \<and> parse_iso8601 ''2019-10-01T12:30:60'' = Inl (FieldOutOfRange Second)
   \<and> parse_iso8601 ''2019-00-01'' = Inl (FieldOutOfRange Month)
   \<and> parse_iso8601 ''2019-13-01'' = Inl (FieldOutOfRange Month)
   \<and> parse_iso8601 ''2019-10-01T12+24'' = Inl (FieldOutOfRange TzHour)
   \<and> parse_iso8601 ''2019-10-01T12+23:60'' = Inl (FieldOutOfRange TzMinute)
   \<and> parse_iso8601 ''2019-10-00'' = Inl DayOutOfRange
   \<and> parse_iso8601 ''2019-10-32'' = Inl DayOutOfRange
   \<and> parse_iso8601 ''0000-10-01'' = Inl (FieldOutOfRange Year)"
proof (intro conjI impI)
  assume re: "datetime_regex s = Some m" and r: "range_violations m \<noteq> []"
  show "parse_iso8601 s = (if inconsistent (g_hyphen m) (g_colon m) then Inl InconsistentFormat
                         else Inl (hd (range_violations m)))"
  proof (cases "inconsistent (g_hyphen m) (g_colon m)")
    case True
    then show ?thesis by (simp add: parse_iso8601_chain[OF re])
  next
    case False
    then have "violations m = range_violations m" by (simp add: violations_def violation_def)
    with r False parse_iso8601_first_violation[OF re] show ?thesis by simp
  qed
next
  show "parse_iso8601 ''2019-10-01T24'' = Inl (FieldOutOfRange Hour)" by code_simp
next
  show "parse_iso8601 ''2019-10-01T12:60'' = Inl (FieldOutOfRange Minute)" by code_simp
next
  show "parse_iso8601 ''2019-10-01T12:30:60'' = Inl (FieldOutOfRange Second)" by code_simp
next
  show "parse_iso8601 ''2019-00-01'' = Inl (FieldOutOfRange Month)" by code_simp
next
  show "parse_iso8601 ''2019-13-01'' = Inl (FieldOutOfRange Month)" by code_simp
next
  show "parse_iso8601 ''2019-10-01T12+24'' = Inl (FieldOutOfRange TzHour)" by code_simp
next
  show "parse_iso8601 ''2019-10-01T12+23:60'' = Inl (FieldOutOfRange TzMinute)" by code_simp
next
  show "parse_iso8601 ''2019-10-00'' = Inl DayOutOfRange" by code_simp
next
  show "parse_iso8601 ''2019-10-32'' = Inl DayOutOfRange" by code_simp
next
  show "parse_iso8601 ''0000-10-01'' = Inl (FieldOutOfRange Year)" by code_simp
qed

lemma range_violations_2019_13_T24:
  "range_violations \<lparr> g_year = ''2019'', g_hyphen = ''-'',
     g_month = ''13'', g_day = ''01'', g_hour = Some ''24'', g_colon = None,
     g_minute = None, g_second = None, g_subsecond = None, g_timezone = None,
     g_sign = None, g_tz_hour = None, g_tz_minute = None \<rparr>
   = [FieldOutOfRange Month, FieldOutOfRange Hour]"
  by code_simp

lemma range_violations_2019_2460:
  "range_violations \<lparr> g_year = ''2019'', g_hyphen = ''-'',
     g_month = ''10'', g_day = ''01'', g_hour = Some ''24'', g_colon = Some [],
     g_minute = Some ''60'', g_second = None, g_subsecond = None, g_timezone = None,
     g_sign = None, g_tz_hour = None, g_tz_minute = None \<rparr>
   = [FieldOutOfRange Hour, FieldOutOfRange Minute]"
  by code_simp

theorem range_errors_witness:
  "datetime_regex ''2019-13-01T24'' \<noteq> None
   \<and> parse_iso8601 ''2019-13-01T24'' = Inl (FieldOutOfRange Month)
   \<and> datetime_regex ''2019-10-01T2460'' \<noteq> None
   \<and> parse_iso8601 ''2019-10-01T2460'' = Inl InconsistentFormat"
proof -
  define m where "m = \<lparr> g_year = ''2019'', g_hyphen = ''-'',
     g_month = ''13'', g_day = ''01'', g_hour = Some ''24'', g_colon = None,
     g_minute = None, g_second = None, g_subsecond = None, g_timezone = None,
     g_sign = None, g_tz_hour = None, g_tz_minute = None \<rparr>"
  define m' where "m' = \<lparr> g_year = ''2019'', g_hyphen = ''-'',
     g_month = ''10'', g_day = ''01'', g_hour = Some ''24'', g_colon = Some [],
     g_minute = Some ''60'', g_second = None, g_subsecond = None, g_timezone = None,
     g_sign = None, g_tz_hour = None, g_tz_minute = None \<rparr>"
  have re: "datetime_regex ''2019-13-01T24'' = Some m" unfolding m_def by (rule regex_2019_13_T24)
  have re': "datetime_regex ''2019-10-01T2460'' = Some m'"
    unfolding m'_def by (rule regex_2019_2460)
  have r: "range_violations m = [FieldOutOfRange Month, FieldOutOfRange Hour]"
    unfolding m_def by (rule range_violations_2019_13_T24)
  have r': "range_violations m' = [FieldOutOfRange Hour, FieldOutOfRange Minute]"
    unfolding m'_def by (rule range_violations_2019_2460)
  have c: "\<not> inconsistent (g_hyphen m) (g_colon m)" by (simp add: m_def inconsistent_def)
  have c': "inconsistent (g_hyphen m') (g_colon m')" by (simp add: m'_def inconsistent_def)
  from range_errors[of "''2019-13-01T24''" m, THEN conjunct1] re r c
  have a: "parse_iso8601 ''2019-13-01T24'' = Inl (FieldOutOfRange Month)" by simp
  from range_errors[of "''2019-10-01T2460''" m', THEN conjunct1] re' r' c'
  have b: "parse_iso8601 ''2019-10-01T2460'' = Inl InconsistentFormat" by simp
  from a b re re' show ?thesis by simp
qed

lemma lookup_days_in_month_defined:
  assumes "1 \<le> mo" "mo \<le> 12"
  shows "\<exists>v. lookup (days_in_month feb) mo = Inr v"
  using month_cases[OF assms]
  by (elim disjE) (simp_all add: lookup_def days_in_month_def)

lemma parse_iso8601_error_kinds:
  assumes "parse_iso8601 s = Inl e"
  shows "e = NoMatch \<or> e \<in> set check_order"
proof (cases "datetime_regex s")
  case None
  with assms show ?thesis by (simp add: parse_iso8601_def)
next
  case (Some m)
  from parse_iso8601_InlD[OF Some assms] have "e \<in> set (violations m)" by simp
  then show ?thesis by (simp add: violations_kinds)
qed

lemma offset_minutes_bounds:
  assumes "tz_shape m" "violations m = []" "offset_minutes m = Some off"
  shows "- 1440 < off \<and> off < 1440"
proof (cases "signed_timezone m")
  case False
  with assms(3) show ?thesis
    by (auto simp: offset_minutes_def signed_timezone_def split: if_splits)
next
  case True
  from assms(2) have f: "field_violations m = []" by (simp add: violations_def range_violations_def)
  from f True have b: "0 \<le> opt_value (g_tz_hour m)" "opt_value (g_tz_hour m) \<le> 23"
    "0 \<le> opt_value (g_tz_minute m)" "opt_value (g_tz_minute m) \<le> 59"
    by (simp_all add: field_violations_def)
  from True assms(3) have "off = (if g_sign m = Some ''+'' then 1 else - 1)
      * (60 * opt_value (g_tz_hour m) + opt_value (g_tz_minute m))"
    by (auto simp: offset_minutes_def signed_timezone_def split: if_splits)
  with b show ?thesis by (simp split: if_splits)
qed

text \<open>
  Claim C9. For an input that passes all the checks the construction of the timestamp
  never fails: the lookup of the month in the table of month lengths is defined for the
  months 1 to 12, and year, month, day, hour, minute, second, microsecond and offset lie
  in the ranges that the constructors accept (year 1 to 9999, microsecond 0 to 999999,
  offset strictly within 24 hours). So the only errors of the parser are those of the
  matcher and of the checks, and an input without a violation parses.
\<close>

theorem construction_never_fails:
  "parse_iso8601 s \<noteq> Inl KeyError \<and> parse_iso8601 s \<noteq> Inl ConstructorError
   \<and> parse_iso8601 s \<noteq> Inl IntError \<and> parse_iso8601 s \<noteq> Inl TypeError
   \<and> (datetime_regex s = Some m \<longrightarrow> violations m = [] \<longrightarrow>
        parse_iso8601 s = Inr (timestamp_of m))
   \<and> (1 \<le> mo \<and> mo \<le> 12 \<longrightarrow> (\<exists>v. lookup (days_in_month feb) mo = Inr v))
   \<and> (parse_iso8601 s = Inr ts \<longrightarrow>
        1 \<le> dt_year ts \<and> dt_year ts \<le> 9999
        \<and> 1 \<le> dt_month ts \<and> dt_month ts \<le> 12
        \<and> 1 \<le> dt_day ts \<and> dt_day ts \<le> lib_days_in_month (dt_year ts) (dt_month ts)
        \<and> 0 \<le> dt_hour ts \<and> dt_hour ts \<le> 23
        \<and> 0 \<le> dt_minute ts \<and> dt_minute ts \<le> 59
        \<and> 0 \<le> dt_second ts \<and> dt_second ts \<le> 59
        \<and> 0 \<le> dt_microsecond ts \<and> dt_microsecond ts \<le> 999999
        \<and> (case dt_tzinfo ts of None \<Rightarrow> True | Some off \<Rightarrow> - 1440 < off \<and> off < 1440))"
proof -
  have kinds: "parse_iso8601 s \<noteq> Inl e" if "e \<noteq> NoMatch" "e \<notin> set check_order" for e
    using parse_iso8601_error_kinds[of s e] that by blast
  have a: "parse_iso8601 s \<noteq> Inl KeyError" "parse_iso8601 s \<noteq> Inl ConstructorError"
    "parse_iso8601 s \<noteq> Inl IntError" "parse_iso8601 s \<noteq> Inl TypeError"
    by (rule kinds; simp add: check_order_def)+
  have b: "parse_iso8601 s = Inr (timestamp_of m)"
    if "datetime_regex s = Some m" "violations m = []"
    using that by (simp add: parse_iso8601_Inr_iff)
  have c: "\<exists>v. lookup (days_in_month feb) mo = Inr v" if "1 \<le> mo \<and> mo \<le> 12"
    using that by (simp add: lookup_days_in_month_defined)
  have d: "1 \<le> dt_year ts \<and> dt_year ts \<le> 9999
        \<and> 1 \<le> dt_month ts \<and> dt_month ts \<le> 12
        \<and> 1 \<le> dt_day ts \<and> dt_day ts \<le> lib_days_in_month (dt_year ts) (dt_month ts)
        \<and> 0 \<le> dt_hour ts \<and> dt_hour ts \<le> 23
        \<and> 0 \<le> dt_minute ts \<and> dt_minute ts \<le> 59
        \<and> 0 \<le> dt_second ts \<and> dt_second ts \<le> 59
        \<and> 0 \<le> dt_microsecond ts \<and> dt_microsecond ts \<le> 999999
        \<and> (case dt_tzinfo ts of None \<Rightarrow> True | Some off \<Rightarrow> - 1440 < off \<and> off < 1440)"
    if ok: "parse_iso8601 s = Inr ts"
  proof -
    from parse_iso8601_InrD[OF ok] obtain m' where re: "datetime_regex s = Some m'"
      and v: "violations m' = []" and ts: "ts = timestamp_of m'" by blast
    from datetime_regex_shape[OF re] have tz: "tz_shape m'" and tm: "time_shape m'"
      and y: "digit_text 4 (g_year m')" by simp_all
    from v have f: "field_violations m' = []" and dr: "day_in_range m'"
      by (simp_all add: violations_def range_violations_def)
    from f have fb: "1 \<le> decimal_value (g_year m')"
      "1 \<le> decimal_value (g_month m')" "decimal_value (g_month m') \<le> 12"
      "0 \<le> opt_value (g_hour m')" "opt_value (g_hour m') \<le> 23"
      "0 \<le> opt_value (g_minute m')" "opt_value (g_minute m') \<le> 59"
      "0 \<le> opt_value (g_second m')" "opt_value (g_second m') \<le> 59"
      by (simp_all add: field_violations_def)
    have yb: "decimal_value (g_year m') \<le> 9999" using digit_text_value[OF y] by simp
    from tm have "subsecond_shape (g_subsecond m')" by (simp add: time_shape_def)
    note us = microsecond_of_bounds[OF this]
    have day: "1 \<le> decimal_value (g_day m')" "decimal_value (g_day m')
        \<le> lib_days_in_month (decimal_value (g_year m')) (decimal_value (g_month m'))"
      using dr fb(2,3) by (simp_all add: day_in_range_def lib_days_in_month_calendar)
    have off: "case offset_minutes m' of None \<Rightarrow> True | Some off \<Rightarrow> - 1440 < off \<and> off < 1440"
      using offset_minutes_bounds[OF tz v] by (cases "offset_minutes m'") simp_all
    show ?thesis unfolding ts timestamp_of_def using fb yb us day off by simp
  qed
  from a b c d show ?thesis by blast
qed

lemma regex_1994_fraction:
  "datetime_regex ''19940126T235959.999999+2359'' = Some \<lparr> g_year = ''1994'', g_hyphen = [],
     g_month = ''01'', g_day = ''26'', g_hour = Some ''23'', g_colon = Some [],
     g_minute = Some ''59'', g_second = Some ''59'', g_subsecond = Some ''999999'',
     g_timezone = Some ''+2359'', g_sign = Some ''+'', g_tz_hour = Some ''23'',
     g_tz_minute = Some ''59'' \<rparr>"
  by code_simp

lemma violations_1994_fraction:
  "violations \<lparr> g_year = ''1994'', g_hyphen = [],
     g_month = ''01'', g_day = ''26'', g_hour = Some ''23'', g_colon = Some [],
     g_minute = Some ''59'', g_second = Some ''59'', g_subsecond = Some ''999999'',
     g_timezone = Some ''+2359'', g_sign = Some ''+'', g_tz_hour = Some ''23'',
     g_tz_minute = Some ''59'' \<rparr> = []"
  by code_simp

theorem construction_never_fails_witness:
  "datetime_regex ''19940126T235959.999999+2359'' \<noteq> None
   \<and> parse_iso8601 ''19940126T235959.999999+2359''
       = Inr \<lparr> dt_year = 1994, dt_month = 1, dt_day = 26, dt_hour = 23, dt_minute = 59,
               dt_second = 59, dt_microsecond = 999999, dt_tzinfo = Some 1439 \<rparr>
   \<and> (\<exists>v. lookup (days_in_month 28) 12 = Inr v)"
proof -
  define m where "m = \<lparr> g_year = ''1994'', g_hyphen = [],
     g_month = ''01'', g_day = ''26'', g_hour = Some ''23'', g_colon = Some [],
     g_minute = Some ''59'', g_second = Some ''59'', g_subsecond = Some ''999999'',
     g_timezone = Some ''+2359'', g_sign = Some ''+'', g_tz_hour = Some ''23'',
     g_tz_minute = Some ''59'' \<rparr>"
  define ts where "ts = \<lparr> dt_year = 1994, dt_month = 1, dt_day = 26, dt_hour = 23,
     dt_minute = 59, dt_second = 59, dt_microsecond = 999999, dt_tzinfo = Some (1439::int) \<rparr>"
  have re: "datetime_regex ''19940126T235959.999999+2359'' = Some m"
    unfolding m_def by (rule regex_1994_fraction)
  have v: "violations m = []" unfolding m_def by (rule violations_1994_fraction)
  have t: "timestamp_of m = ts" unfolding m_def ts_def by code_simp
  note inst = construction_never_fails[of "''19940126T235959.999999+2359''" m 12 28 ts]
  from inst re v have p: "parse_iso8601 ''19940126T235959.999999+2359'' = Inr (timestamp_of m)"
    by blast
  from inst have l: "\<exists>v. lookup (days_in_month 28) 12 = Inr v" by simp
  from inst p t have "dt_microsecond ts \<le> 999999" by simp
  with p l re show ?thesis by (simp add: t ts_def)
qed

end
